theory Spec2Isabelle
  imports Complex_Main "HOL-Library.Word" "HOL-Library.Log_Nat" "HOL-Library.Code_Target_Numeral"
begin

section \<open>Machine values\<close>

text \<open>
  The tile pyramid of \<^verbatim>\<open>src/geojsonvt.cpp\<close>, embedded function by function.

  Fixed-width integers are words: \<^verbatim>\<open>uint8_t\<close> is \<open>8 word\<close>, \<^verbatim>\<open>uint16_t\<close> is
  \<open>16 word\<close>, \<^verbatim>\<open>uint32_t\<close> is \<open>32 word\<close>, \<^verbatim>\<open>uint64_t\<close> is \<open>64 word\<close>; the signed
  types \<^verbatim>\<open>int8_t\<close>, \<^verbatim>\<open>int16_t\<close> and \<^verbatim>\<open>int32_t\<close> are words of the same width read
  with \<open>sint\<close>. \<^verbatim>\<open>int\<close> has 32 bits.

  Every way the C++ can leave its defined behaviour, or throw, is a value of \<open>error\<close>,
  and a function that can do so returns \<open>error + 'a\<close>.
\<close>

datatype error =
    NullDereference     \<comment> \<open>\<^verbatim>\<open>parent->source\<close> with \<^verbatim>\<open>parent == nullptr\<close>\<close>
  | ShiftOutOfRange     \<comment> \<open>\<^verbatim>\<open>1 << n\<close> with \<open>n\<close> negative or at least the width of \<^verbatim>\<open>int\<close>\<close>
  | EmptyFront          \<comment> \<open>\<^verbatim>\<open>front()\<close> of an empty vector\<close>
  | BadVariantAccess    \<comment> \<open>\<^verbatim>\<open>get<T>()\<close> on a variant that holds the other alternative\<close>
  | Int16OutOfRange     \<comment> \<open>a \<^verbatim>\<open>double\<close> converted to \<^verbatim>\<open>int16_t\<close> that does not fit\<close>

text \<open>
  A \<^verbatim>\<open>double\<close> is a binary64 number of IEEE 754: the real number it denotes, or one of
  the three special values. The sign of a zero is not kept: nothing in this file tells
  the two zeros apart.
\<close>

datatype double = Finite real | PosInf | NegInf | NaN

text \<open>
  An arithmetic operation on \<^verbatim>\<open>double\<close> yields the exact result rounded to the nearest
  binary64 number, a tie to the one whose significand is even, and an infinity from
  \<open>2 ^ 1024\<close> on. A significand has 53 bits, and the unit in the last place of a number
  is \<open>2 ^ (e - 52)\<close> for its binary exponent \<open>e\<close>, which is at least \<open>- 1022\<close>: the numbers
  below \<open>2 ^ - 1022\<close> are multiples of \<open>2 ^ - 1074\<close>.

  \<open>binExp r\<close> is that exponent for the real number \<open>r\<close>, read from the number of bits
  of \<open>r\<close> in units of \<open>2 ^ - 1074\<close>; \<open>roundEven\<close> rounds to the nearest integer, a tie to the
  even one; \<open>fl r\<close> is the \<^verbatim>\<open>double\<close> that \<open>r\<close> is rounded to.
\<close>

definition binExp :: "real \<Rightarrow> int" where
  "binExp r = max (- 1022) (bitlen \<lfloor>\<bar>r\<bar> * 2 ^ 1074\<rfloor> - 1075)"

definition roundEven :: "real \<Rightarrow> int" where
  "roundEven x =
     (let f = \<lfloor>x\<rfloor>; d = x - of_int f
      in if d < 1 / 2 then f else if 1 / 2 < d then f + 1 else if even f then f else f + 1)"

definition fl :: "real \<Rightarrow> double" where
  "fl r =
     (let u = binExp r - 52;
          v = of_int (roundEven (r / 2 powi u)) * 2 powi u
      in if 2 ^ 1024 \<le> v then PosInf else if v \<le> - (2 ^ 1024) then NegInf else Finite v)"

text \<open>
  The infinity of a sign, and the sign of a \<^verbatim>\<open>double\<close>; a product with a NaN, or of a zero
  and an infinity, is a NaN.
\<close>

definition infinity :: "real \<Rightarrow> double" where
  "infinity s = (if s = 0 then NaN else if 0 < s then PosInf else NegInf)"

fun signum :: "double \<Rightarrow> real" where
  "signum (Finite r) = sgn r"
| "signum PosInf = 1"
| "signum NegInf = - 1"
| "signum NaN = 0"

text \<open>\<^verbatim>\<open>a * b\<close> and \<^verbatim>\<open>a - b\<close> on \<^verbatim>\<open>double\<close>.\<close>

fun mul_double :: "double \<Rightarrow> double \<Rightarrow> double" where
  "mul_double (Finite r) (Finite s) = fl (r * s)"
| "mul_double a b = infinity (signum a * signum b)"

fun sub_double :: "double \<Rightarrow> double \<Rightarrow> double" where
  "sub_double (Finite r) (Finite s) = fl (r - s)"
| "sub_double NaN b = NaN"
| "sub_double a NaN = NaN"
| "sub_double PosInf PosInf = NaN"
| "sub_double NegInf NegInf = NaN"
| "sub_double PosInf b = PosInf"
| "sub_double NegInf b = NegInf"
| "sub_double (Finite r) PosInf = NegInf"
| "sub_double (Finite r) NegInf = PosInf"

text \<open>\<^verbatim>\<open>a / d\<close> for a \<^verbatim>\<open>double\<close> \<open>a\<close> and an unsigned integer \<open>d\<close> (converted to \<^verbatim>\<open>double\<close>).\<close>

definition div_double :: "double \<Rightarrow> 32 word \<Rightarrow> double" where
  "div_double a d =
     (case a of
        Finite r \<Rightarrow> (if d = 0 then infinity r else fl (r / real (unat d)))
      | PosInf \<Rightarrow> PosInf
      | NegInf \<Rightarrow> NegInf
      | NaN \<Rightarrow> NaN)"

text \<open>
  \<^verbatim>\<open>std::round\<close>: to the nearest integer, halfway cases away from zero. The result is a
  \<^verbatim>\<open>double\<close> again, and exact: a \<^verbatim>\<open>double\<close> that is not an integer is below \<open>2 ^ 52\<close>.
\<close>

definition cround :: "real \<Rightarrow> int" where
  "cround r = (if 0 \<le> r then \<lfloor>r + 1 / 2\<rfloor> else - \<lfloor>- r + 1 / 2\<rfloor>)"

text \<open>An integral \<^verbatim>\<open>double\<close> converted to \<^verbatim>\<open>int16_t\<close>: undefined when it does not fit.\<close>

definition to_int16 :: "int \<Rightarrow> error + 16 word" where
  "to_int16 i = (if - 32768 \<le> i \<and> i \<le> 32767 then Inr (word_of_int i) else Inl Int16OutOfRange)"

text \<open>\<^verbatim>\<open>1 << n\<close> on \<^verbatim>\<open>int\<close>, as the 32 bits of the result.\<close>

definition shl1 :: "int \<Rightarrow> error + 32 word" where
  "shl1 n = (if 0 \<le> n \<and> n < 32 then Inr (push_bit (nat n) 1) else Inl ShiftOutOfRange)"

text \<open>\<^verbatim>\<open>a / b\<close> on \<^verbatim>\<open>int\<close>: the quotient truncated towards zero.\<close>

definition int_div :: "int \<Rightarrow> int \<Rightarrow> int" where
  "int_div a b = sgn a * sgn b * (\<bar>a\<bar> div \<bar>b\<bar>)"

text \<open>A loop over a vector whose body can fail: the first failure ends it.\<close>

fun mapE :: "('a \<Rightarrow> error + 'b) \<Rightarrow> 'a list \<Rightarrow> error + 'b list" where
  "mapE f [] = Inr []"
| "mapE f (a # as) =
     (case f a of
        Inl e \<Rightarrow> Inl e
      | Inr b \<Rightarrow> (case mapE f as of Inl e \<Rightarrow> Inl e | Inr bs \<Rightarrow> Inr (b # bs)))"

section \<open>Data model\<close>

text \<open>
  The types are declared in headers that are not among the sources; their fields are
  the ones \<^verbatim>\<open>geojsonvt.cpp\<close> reads and writes. The coordinates of a \<open>ProjectedPoint\<close>
  are \<open>pt_x\<close>, \<open>pt_y\<close>, \<open>pt_z\<close> (\<^verbatim>\<open>x\<close>, \<^verbatim>\<open>y\<close>, \<^verbatim>\<open>z\<close> in the source), the bounding box of a
  tile is \<open>tile_min\<close>, \<open>tile_max\<close> (\<^verbatim>\<open>min\<close>, \<^verbatim>\<open>max\<close>), the kind of a feature is \<open>ftype\<close>
  (\<^verbatim>\<open>type\<close>).
\<close>

record ProjectedPoint =
  pt_x :: double
  pt_y :: double
  pt_z :: double

text \<open>
  \<^verbatim>\<open>ProjectedGeometry\<close> is a variant of a point and a container; a container is read
  through its \<^verbatim>\<open>members\<close>.
\<close>

datatype ProjectedGeometry =
    GPoint ProjectedPoint
  | GContainer "ProjectedGeometry list"

fun get_ProjectedPoint :: "ProjectedGeometry \<Rightarrow> error + ProjectedPoint" where
  "get_ProjectedPoint (GPoint p) = Inr p"
| "get_ProjectedPoint (GContainer ms) = Inl BadVariantAccess"

fun get_ProjectedGeometryContainer :: "ProjectedGeometry \<Rightarrow> error + ProjectedGeometry list" where
  "get_ProjectedGeometryContainer (GContainer ms) = Inr ms"
| "get_ProjectedGeometryContainer (GPoint p) = Inl BadVariantAccess"

datatype TileFeatureType = Point | LineString | Polygon

record TilePoint =
  tp_x :: "16 word"
  tp_y :: "16 word"

datatype TileGeometry =
    GTilePoint TilePoint
  | GTileRing "TilePoint list"

record TileFeature =
  geometry :: "ProjectedGeometry list"
  ftype :: TileFeatureType
  tileGeometry :: "TileGeometry list"

text \<open>
  A tile over projected features of type \<open>'f\<close>: this file never looks inside a
  \<^verbatim>\<open>ProjectedFeature\<close>, it only hands vectors of them to the tile factory and the
  clipper.
\<close>

record 'f Tile =
  features :: "TileFeature list"
  numPoints :: "32 word"
  numSimplified :: "32 word"
  numFeatures :: "32 word"
  source :: "'f list"
  z2 :: "32 word"
  tx :: "32 word"
  ty :: "32 word"
  transformed :: bool
  tile_min :: ProjectedPoint
  tile_max :: ProjectedPoint

text \<open>
  Modelled from the spec: the members \<^verbatim>\<open>extent\<close> and \<^verbatim>\<open>buffer\<close> of the class are
  initialised in its header, which is not among the sources; the spec fixes them at
  4096 and 64 (and \<^verbatim>\<open>convertFeatures\<close> repeats the 4096).
\<close>

definition extent :: "16 word" where
  "extent = 4096"

definition buffer :: "8 word" where
  "buffer = 64"

section \<open>Tile keys\<close>

text \<open>
  \<^verbatim>\<open>return (((1 << z) * y + x) * 32) + z;\<close>
  The shift is on \<^verbatim>\<open>int\<close>; multiplying by the \<^verbatim>\<open>uint32_t\<close> \<open>y\<close> converts to
  \<^verbatim>\<open>unsigned int\<close>, and every later operand is converted likewise, so the whole sum is
  computed modulo \<open>2 ^ 32\<close> and only then widened to the \<^verbatim>\<open>uint64_t\<close> result.
\<close>

definition toID :: "8 word \<Rightarrow> 32 word \<Rightarrow> 32 word \<Rightarrow> error + 64 word" where
  "toID z x y =
     (case shl1 (uint z) of
        Inl e \<Rightarrow> Inl e
      | Inr p \<Rightarrow> Inr (ucast (((p * y + x) * 32) + ucast z :: 32 word)))"

section \<open>Transforming a tile into tile space\<close>

text \<open>
  \<^verbatim>\<open>int16_t x = std::round(extent * (p.x * z2 - tx));\<close> for one coordinate. The three
  unsigned integers are converted to \<^verbatim>\<open>double\<close>, which holds each of them exactly, and
  the product, the difference and the second product are those of \<^verbatim>\<open>double\<close>, each
  rounded on its own (the first product is not fused with the difference; in every
  call of this file \<^verbatim>\<open>z2\<close> is a power of 2, and the first product does not round). The
  conversion of an infinity or a NaN to \<^verbatim>\<open>int16_t\<close> is undefined, as is that of a number
  that does not fit.
\<close>

definition transformCoord :: "double \<Rightarrow> 16 word \<Rightarrow> 32 word \<Rightarrow> 32 word \<Rightarrow> error + 16 word" where
  "transformCoord c ext zz t =
     (case mul_double (Finite (real (unat ext)))
             (sub_double (mul_double c (Finite (real (unat zz)))) (Finite (real (unat t)))) of
        Finite v \<Rightarrow> to_int16 (cround v)
      | _ \<Rightarrow> Inl Int16OutOfRange)"

definition transformPoint ::
  "ProjectedPoint \<Rightarrow> 16 word \<Rightarrow> 32 word \<Rightarrow> 32 word \<Rightarrow> 32 word \<Rightarrow> error + TilePoint" where
  "transformPoint p ext zz txv tyv =
     (case transformCoord (pt_x p) ext zz txv of
        Inl e \<Rightarrow> Inl e
      | Inr xi \<Rightarrow>
          (case transformCoord (pt_y p) ext zz tyv of
             Inl e \<Rightarrow> Inl e
           | Inr yi \<Rightarrow> Inr \<lparr>tp_x = xi, tp_y = yi\<rparr>))"

text \<open>The inner loops of \<^verbatim>\<open>transformTile\<close>: one element of a feature's geometry.\<close>

definition transformGeomPoint ::
  "16 word \<Rightarrow> 32 word \<Rightarrow> 32 word \<Rightarrow> 32 word \<Rightarrow> ProjectedGeometry \<Rightarrow> error + TilePoint" where
  "transformGeomPoint ext zz txv tyv pt =
     (case get_ProjectedPoint pt of
        Inl e \<Rightarrow> Inl e
      | Inr p \<Rightarrow> transformPoint p ext zz txv tyv)"

definition transformGeomRing ::
  "16 word \<Rightarrow> 32 word \<Rightarrow> 32 word \<Rightarrow> 32 word \<Rightarrow> ProjectedGeometry \<Rightarrow> error + TileGeometry" where
  "transformGeomRing ext zz txv tyv r =
     (case get_ProjectedGeometryContainer r of
        Inl e \<Rightarrow> Inl e
      | Inr members \<Rightarrow>
          (case mapE (transformGeomPoint ext zz txv tyv) members of
             Inl e \<Rightarrow> Inl e
           | Inr points \<Rightarrow> Inr (GTileRing points)))"

text \<open>The body of the loop over \<^verbatim>\<open>tile.features\<close>: the new points are appended.\<close>

definition transformFeature ::
  "16 word \<Rightarrow> 32 word \<Rightarrow> 32 word \<Rightarrow> 32 word \<Rightarrow> TileFeature \<Rightarrow> error + TileFeature" where
  "transformFeature ext zz txv tyv feature =
     (if ftype feature = Point then
        (case mapE (transformGeomPoint ext zz txv tyv) (geometry feature) of
           Inl e \<Rightarrow> Inl e
         | Inr pts \<Rightarrow>
             Inr (feature\<lparr>tileGeometry := tileGeometry feature @ map GTilePoint pts\<rparr>))
      else
        (case mapE (transformGeomRing ext zz txv tyv) (geometry feature) of
           Inl e \<Rightarrow> Inl e
         | Inr rings \<Rightarrow> Inr (feature\<lparr>tileGeometry := tileGeometry feature @ rings\<rparr>)))"

definition transformTile :: "'f Tile \<Rightarrow> 16 word \<Rightarrow> error + 'f Tile" where
  "transformTile tile ext =
     (if transformed tile then Inr tile
      else
        (case mapE (transformFeature ext (z2 tile) (tx tile) (ty tile)) (features tile) of
           Inl e \<Rightarrow> Inl e
         | Inr fs \<Rightarrow> Inr (tile\<lparr>features := fs, transformed := True\<rparr>)))"

section \<open>Degenerate tiles\<close>

text \<open>The loop of \<^verbatim>\<open>isClippedSquare\<close> over the members of the ring.\<close>

fun squareMembers :: "ProjectedGeometry list \<Rightarrow> 16 word \<Rightarrow> 8 word \<Rightarrow> error + bool" where
  "squareMembers [] ext buf = Inr True"
| "squareMembers (m # ms) ext buf =
     (case get_ProjectedPoint m of
        Inl e \<Rightarrow> Inl e
      | Inr p \<Rightarrow>
          (if (pt_x p \<noteq> Finite (- real (unat buf))
                 \<and> pt_x p \<noteq> Finite (real (unat ext) + real (unat buf)))
              \<or> (pt_y p \<noteq> Finite (- real (unat buf))
                 \<and> pt_y p \<noteq> Finite (real (unat ext) + real (unat buf)))
           then Inr False
           else squareMembers ms ext buf))"

definition isClippedSquare :: "TileFeature list \<Rightarrow> 16 word \<Rightarrow> 8 word \<Rightarrow> error + bool" where
  "isClippedSquare fs ext buf =
     (case fs of
        [feature] \<Rightarrow>
          (if ftype feature \<noteq> Polygon \<or> length (geometry feature) > 1 then Inr False
           else
             (case geometry feature of
                [] \<Rightarrow> Inl EmptyFront
              | g # _ \<Rightarrow>
                  (case get_ProjectedGeometryContainer g of
                     Inl e \<Rightarrow> Inl e
                   | Inr members \<Rightarrow> squareMembers members ext buf)))
      | _ \<Rightarrow> Inr False)"

section \<open>The pyramid builder\<close>

text \<open>
  \<^verbatim>\<open>Tile::createTile\<close>, \<^verbatim>\<open>Clip::clip\<close> and the default constructor of \<^verbatim>\<open>Tile\<close> are
  defined in files that are not among the sources: the builder takes them as
  parameters, with the arguments in the order of the calls. The clipper is handed one
  of the two intersection callbacks of this file; here it is handed the callback's
  name.
\<close>

datatype intersect = intersectX | intersectY

record 'f collaborators =
  createTile :: "'f list \<Rightarrow> 32 word \<Rightarrow> 32 word \<Rightarrow> 32 word \<Rightarrow> double \<Rightarrow> bool \<Rightarrow> 'f Tile"
  clip :: "'f list \<Rightarrow> 32 word \<Rightarrow> double \<Rightarrow> double \<Rightarrow> nat \<Rightarrow> intersect \<Rightarrow> double \<Rightarrow> double \<Rightarrow> 'f list"
  defaultTile :: "'f Tile"

text \<open>
  The object: its parameters, the tile index and the two debug counters (\<^verbatim>\<open>stats\<close>
  counts the created tiles of each zoom, \<^verbatim>\<open>total\<close> all of them).
\<close>

record 'f GeoJSONVT =
  maxZoom :: "8 word"
  indexMaxZoom :: "8 word"
  indexMaxPoints :: "32 word"
  tolerance :: double
  debug :: bool
  tiles :: "64 word \<Rightarrow> 'f Tile option"
  stats :: "8 word \<Rightarrow> nat option"
  total :: nat

text \<open>An item of the work queue: \<^verbatim>\<open>FeatureStackItem(features, z, x, y)\<close>.\<close>

type_synonym 'f FeatureStackItem = "'f list \<times> 8 word \<times> 32 word \<times> 32 word"

text \<open>
  How one iteration of the loop of \<^verbatim>\<open>splitTile\<close> ends: at one of its four
  \<^verbatim>\<open>continue\<close> statements, in the order of the source, or at the end of the body,
  after the children were clipped and pushed.
\<close>

datatype decision = ClippedSquare | FirstPassStop | DrillDownStop | NotAncestor | Split

text \<open>\<^verbatim>\<open>if (fs.size()) stack.emplace(std::move(fs), z, x, y);\<close>\<close>

definition pushIf :: "'f list \<Rightarrow> 8 word \<Rightarrow> 32 word \<Rightarrow> 32 word \<Rightarrow> 'f FeatureStackItem list" where
  "pushIf fs z x y = (if fs \<noteq> [] then [(fs, z, x, y)] else [])"

text \<open>
  The second half of the body: the four clipped quadrants, and the pushes of those
  that are not empty. With the extent 4096 and the buffer 64, \<^verbatim>\<open>k1\<close> is \<open>2 ^ - 7\<close>, and
  every bound handed to the clipper is a multiple of \<open>2 ^ - 7\<close> below \<open>2 ^ 33\<close>: none of
  the operations on \<^verbatim>\<open>double\<close> rounds here (\<open>fl_multiple_of_128\<close>).
\<close>

definition splitChildren ::
  "'f collaborators \<Rightarrow> 'f list \<Rightarrow> 'f Tile \<Rightarrow> 8 word \<Rightarrow> 32 word \<Rightarrow> 32 word \<Rightarrow> 32 word
     \<Rightarrow> 'f FeatureStackItem list" where
  "splitChildren env fs tile z x y zz =
     (let k1 = 1 / 2 * real (unat buffer) / real (unat extent);
          k2 = 1 / 2 - k1;
          k3 = 1 / 2 + k1;
          k4 = 1 + k1;
          xr = real (unat x);
          yr = real (unat y);
          minx = pt_x (tile_min tile); maxx = pt_x (tile_max tile);
          miny = pt_y (tile_min tile); maxy = pt_y (tile_max tile);
          left = clip env fs zz (Finite (xr - k1)) (Finite (xr + k3)) 0 intersectX minx maxx;
          right = clip env fs zz (Finite (xr + k2)) (Finite (xr + k4)) 0 intersectX minx maxx;
          tl = (if left \<noteq> []
                then clip env left zz (Finite (yr - k1)) (Finite (yr + k3)) 1 intersectY miny maxy
                else []);
          bl = (if left \<noteq> []
                then clip env left zz (Finite (yr + k2)) (Finite (yr + k4)) 1 intersectY miny maxy
                else []);
          tr = (if right \<noteq> []
                then clip env right zz (Finite (yr - k1)) (Finite (yr + k3)) 1 intersectY miny maxy
                else []);
          br = (if right \<noteq> []
                then clip env right zz (Finite (yr + k2)) (Finite (yr + k4)) 1 intersectY miny maxy
                else [])
      in pushIf tl (z + 1) (x * 2) (y * 2)
         @ pushIf bl (z + 1) (x * 2) (y * 2 + 1)
         @ pushIf tr (z + 1) (x * 2 + 1) (y * 2)
         @ pushIf br (z + 1) (x * 2 + 1) (y * 2 + 1))"

text \<open>
  The tests between \<^verbatim>\<open>tile->source = features\<close> and \<^verbatim>\<open>tile->source = {}\<close>. The target
  \<open>(cz, cx, cy)\<close> is signed: \<^verbatim>\<open>int8_t\<close>, \<^verbatim>\<open>int32_t\<close>, \<^verbatim>\<open>int32_t\<close>. In
  \<^verbatim>\<open>x != std::floor(cx / m)\<close> the quotient is the one of \<^verbatim>\<open>int\<close>, and both sides are
  compared as \<^verbatim>\<open>double\<close>, which holds each of them exactly.
\<close>

definition decide ::
  "'f GeoJSONVT \<Rightarrow> 'f Tile \<Rightarrow> 8 word \<Rightarrow> 32 word \<Rightarrow> 32 word \<Rightarrow> 8 word \<Rightarrow> 32 word \<Rightarrow> 32 word
     \<Rightarrow> error + decision" where
  "decide this tile z x y cz cx cy =
     (case isClippedSquare (features tile) extent buffer of
        Inl e \<Rightarrow> Inl e
      | Inr True \<Rightarrow> Inr ClippedSquare
      | Inr False \<Rightarrow>
          (if cz = 0 then
             (if z = indexMaxZoom this \<or> numPoints tile \<le> indexMaxPoints this
              then Inr FirstPassStop else Inr Split)
           else if z = maxZoom this \<or> uint z = sint cz then Inr DrillDownStop
           else
             (case shl1 (sint cz - uint z) of
                Inl e \<Rightarrow> Inl e
              | Inr mw \<Rightarrow>
                  (let m = sint mw in
                   if uint x \<noteq> int_div (sint cx) m \<and> uint y \<noteq> int_div (sint cy) m
                   then Inr NotAncestor else Inr Split))))"

text \<open>
  \<^verbatim>\<open>if (this->tiles.count(id)) ... else ...\<close>: the tile of the key, created and
  counted when the index has none; the tile and the object afterwards, the tile not
  yet written back.
\<close>

definition findOrCreate ::
  "'f collaborators \<Rightarrow> 'f GeoJSONVT \<Rightarrow> 'f list \<Rightarrow> 8 word \<Rightarrow> 32 word \<Rightarrow> 32 word \<Rightarrow> 32 word
     \<Rightarrow> 64 word \<Rightarrow> 'f Tile \<times> 'f GeoJSONVT" where
  "findOrCreate env this fs z x y zz tid =
     (let tileTolerance =
            (if z = maxZoom this then Finite 0
             else div_double (tolerance this) (zz * ucast extent))
      in (case tiles this tid of
            Some t \<Rightarrow> (t, this)
          | None \<Rightarrow>
              (createTile env fs zz x y tileTolerance (z = maxZoom this),
               if debug this
               then this\<lparr>stats := (stats this)
                            (z \<mapsto> (case stats this z of Some n \<Rightarrow> n + 1 | None \<Rightarrow> 1)),
                         total := total this + 1\<rparr>
               else this)))"

text \<open>
  One iteration of the loop, for the item popped from the queue: the object
  afterwards, the items pushed, and how the iteration ended. The tile is written
  through a pointer into the index; here it is written back at the end.
\<close>

definition splitStep ::
  "'f collaborators \<Rightarrow> 8 word \<Rightarrow> 32 word \<Rightarrow> 32 word \<Rightarrow> 'f GeoJSONVT \<Rightarrow> 'f FeatureStackItem
     \<Rightarrow> error + ('f GeoJSONVT \<times> 'f FeatureStackItem list \<times> decision)" where
  "splitStep env cz cx cy this item =
     (case item of (fs, z, x, y) \<Rightarrow>
        (case shl1 (uint z) of
           Inl e \<Rightarrow> Inl e
         | Inr zz \<Rightarrow>
             (case toID z x y of
                Inl e \<Rightarrow> Inl e
              | Inr tid \<Rightarrow>
                  (let created = findOrCreate env this fs z x y zz tid;
                       tile = (fst created)\<lparr>source := fs\<rparr>;
                       this1 = snd created
                   in (case decide this tile z x y cz cx cy of
                         Inl e \<Rightarrow> Inl e
                       | Inr d \<Rightarrow>
                           (if d = Split then
                              (let tile' = tile\<lparr>source := []\<rparr>
                               in Inr (this1\<lparr>tiles := (tiles this1)(tid \<mapsto> tile')\<rparr>,
                                       splitChildren env fs tile' z x y zz, Split))
                            else Inr (this1\<lparr>tiles := (tiles this1)(tid \<mapsto> tile)\<rparr>, [], d)))))))"

text \<open>
  A record of one iteration, for stating what the loop did: the cell, the features it
  was handed, and how it ended. The loop keeps them, newest first, in a
  history that it never reads.
\<close>

record 'f visit =
  v_z :: "8 word"
  v_x :: "32 word"
  v_y :: "32 word"
  v_features :: "'f list"
  v_decision :: decision

definition visitOf :: "'f FeatureStackItem \<Rightarrow> decision \<Rightarrow> 'f visit" where
  "visitOf item d =
     (case item of (fs, z, x, y) \<Rightarrow>
        \<lparr>v_z = z, v_x = x, v_y = y, v_features = fs, v_decision = d\<rparr>)"

text \<open>
  The loop of \<^verbatim>\<open>splitTile\<close> over the queue: \<^verbatim>\<open>front\<close> and \<^verbatim>\<open>pop\<close> take the first
  item, \<^verbatim>\<open>emplace\<close> appends. It ends: an item at zoom \<open>z\<close> is replaced by at most four
  at zoom \<open>z + 1\<close>, and the shift \<^verbatim>\<open>1 << z\<close> bounds \<open>z\<close>; \<open>weight\<close> is the measure of the
  termination proof.
\<close>

definition weight :: "'f FeatureStackItem \<Rightarrow> nat" where
  "weight item = (case item of (fs, z, x, y) \<Rightarrow> 5 ^ (32 - unat z))"

function splitLoop ::
  "'f collaborators \<Rightarrow> 8 word \<Rightarrow> 32 word \<Rightarrow> 32 word \<Rightarrow> 'f GeoJSONVT
     \<Rightarrow> 'f FeatureStackItem list \<Rightarrow> 'f visit list \<Rightarrow> error + ('f GeoJSONVT \<times> 'f visit list)" where
  "splitLoop env cz cx cy this [] vs = Inr (this, vs)"
| "splitLoop env cz cx cy this (item # stack) vs =
     (case splitStep env cz cx cy this item of
        Inl e \<Rightarrow> Inl e
      | Inr (this', pushed, d) \<Rightarrow>
          splitLoop env cz cx cy this' (stack @ pushed) (visitOf item d # vs))"
  by pat_completeness auto

lemma weight_child:
  assumes "unat z < 32"
  shows "weight (fs', z + 1, x', y') * 5 = weight (fs, z, x, y)"
proof -
  have "unat (z + 1) = unat z + 1"
    using assms by (simp add: unat_word_ariths)
  then have "32 - unat z = Suc (32 - unat (z + 1))" using assms by simp
  then show ?thesis by (simp add: weight_def)
qed

lemma splitChildren_zoom:
  "c \<in> set (splitChildren env fs tile z x y zz) \<Longrightarrow> fst (snd c) = z + 1"
  unfolding splitChildren_def Let_def
  by (auto simp: pushIf_def split: if_splits)

lemma splitChildren_length: "length (splitChildren env fs tile z x y zz) \<le> 4"
  unfolding splitChildren_def Let_def
  by (simp add: pushIf_def)

lemma sum_list_const_bound:
  "(\<And>c. c \<in> set cs \<Longrightarrow> f c = (w::nat)) \<Longrightarrow> sum_list (map f cs) = length cs * w"
  by (induction cs) auto

lemma splitChildren_weight:
  assumes "unat z < 32"
  shows "sum_list (map weight (splitChildren env fs tile z x y zz)) < weight (fs, z, x, y)"
proof -
  define w where "w = weight ([] :: 'a list, z + 1, 0 :: 32 word, 0 :: 32 word)"
  have w5: "w * 5 = weight (fs, z, x, y)"
    unfolding w_def by (rule weight_child [OF assms])
  have wpos: "0 < w" by (simp add: w_def weight_def)
  have each: "weight c = w" if "c \<in> set (splitChildren env fs tile z x y zz)" for c
  proof -
    have "fst (snd c) = z + 1" using that by (rule splitChildren_zoom)
    then show ?thesis by (cases c) (simp add: weight_def w_def)
  qed
  have "sum_list (map weight (splitChildren env fs tile z x y zz))
          = length (splitChildren env fs tile z x y zz) * w"
    by (rule sum_list_const_bound) (rule each)
  also have "\<dots> \<le> 4 * w"
    using splitChildren_length [of env fs tile z x y zz] by simp
  also have "\<dots> < w * 5" using wpos by simp
  finally show ?thesis using w5 by simp
qed

lemma uint_less_32: "uint (z :: 8 word) < 32 \<longleftrightarrow> unat z < 32"
  using uint_nat [of z] by linarith

lemma shl1_uint: "shl1 (uint (z :: 8 word)) = Inr p \<Longrightarrow> unat z < 32"
  by (auto simp: shl1_def uint_less_32 split: if_splits)

lemma splitStep_Inr:
  assumes "splitStep env cz cx cy this (fs, z, x, y) = Inr (this', pushed, d)"
  obtains zz tid where
    "shl1 (uint z) = Inr zz" "toID z x y = Inr tid"
    "decide this ((fst (findOrCreate env this fs z x y zz tid))\<lparr>source := fs\<rparr>) z x y cz cx cy = Inr d"
    "this' = (snd (findOrCreate env this fs z x y zz tid))
        \<lparr>tiles := (tiles (snd (findOrCreate env this fs z x y zz tid)))
           (tid \<mapsto> (fst (findOrCreate env this fs z x y zz tid))
                     \<lparr>source := (if d = Split then [] else fs)\<rparr>)\<rparr>"
    "pushed = (if d = Split
               then splitChildren env fs
                      ((fst (findOrCreate env this fs z x y zz tid))\<lparr>source := []\<rparr>) z x y zz
               else [])"
proof -
  from assms obtain zz where zz: "shl1 (uint z) = Inr zz"
    by (auto simp: splitStep_def split: sum.splits)
  from assms zz obtain tid where tid: "toID z x y = Inr tid"
    by (auto simp: splitStep_def split: sum.splits)
  from assms zz tid obtain d' where
    d': "decide this ((fst (findOrCreate env this fs z x y zz tid))\<lparr>source := fs\<rparr>) z x y cz cx cy = Inr d'"
    by (auto simp: splitStep_def Let_def split: sum.splits)
  from assms zz tid d' have "d' = d"
    by (auto simp: splitStep_def Let_def split: if_splits)
  with assms zz tid d' show thesis
    by (intro that [of zz tid]) (auto simp: splitStep_def Let_def split: if_splits)
qed

lemma splitStep_pushed:
  assumes "splitStep env cz cx cy this (fs, z, x, y) = Inr (this', pushed, d)"
  shows "unat z < 32 \<and> (pushed = [] \<or> (\<exists>tile zz. pushed = splitChildren env fs tile z x y zz))"
  using assms by (elim splitStep_Inr) (auto dest: shl1_uint)

lemma splitStep_weight:
  assumes "splitStep env cz cx cy this item = Inr (this', pushed, d)"
  shows "sum_list (map weight pushed) < weight item"
proof (cases item)
  case (fields fs z x y)
  from assms splitStep_pushed [of env cz cx cy this fs z x y this' pushed d]
  have z: "unat z < 32"
    and p: "pushed = [] \<or> (\<exists>tile zz. pushed = splitChildren env fs tile z x y zz)"
    unfolding fields by blast+
  from p show ?thesis
  proof
    assume "pushed = []"
    then show ?thesis by (simp add: fields weight_def)
  next
    assume "\<exists>tile zz. pushed = splitChildren env fs tile z x y zz"
    then show ?thesis using splitChildren_weight [OF z] unfolding fields by auto
  qed
qed

termination splitLoop
proof (relation "measure (\<lambda>(env, cz, cx, cy, this, stack, vs). sum_list (map weight stack))")
  show "wf (measure (\<lambda>(env, cz, cx, cy, this, stack, vs). sum_list (map weight stack)))"
    by simp
next
  fix env :: "'a collaborators" and cz cx cy this item stack vs x2 this' y pushed d
  assume "splitStep env cz cx cy this item = Inr x2" "(this', y) = x2" "(pushed, d) = y"
  then have "splitStep env cz cx cy this item = Inr (this', pushed, d)" by simp
  from splitStep_weight [OF this]
  show "((env, cz, cx, cy, this', stack @ pushed, visitOf item d # vs),
         (env, cz, cx, cy, this, item # stack, vs))
        \<in> measure (\<lambda>(env, cz, cx, cy, this, stack, vs). sum_list (map weight stack))"
    by simp
qed

declare splitLoop.simps [simp del]

text \<open>\<^verbatim>\<open>splitTile\<close>: the queue starts with the one item of the arguments.\<close>

definition splitTile ::
  "'f collaborators \<Rightarrow> 'f GeoJSONVT \<Rightarrow> 'f list \<Rightarrow> 8 word \<Rightarrow> 32 word \<Rightarrow> 32 word
     \<Rightarrow> 8 word \<Rightarrow> 32 word \<Rightarrow> 32 word \<Rightarrow> error + 'f GeoJSONVT" where
  "splitTile env this fs z x y cz cx cy =
     (case splitLoop env cz cx cy this [(fs, z, x, y)] [] of
        Inl e \<Rightarrow> Inl e
      | Inr (this', vs) \<Rightarrow> Inr this')"

text \<open>
  The constructor: \<^verbatim>\<open>splitTile(features_, 0, 0, 0)\<close> on an empty index, the target
  defaulting to \<open>(0, 0, 0)\<close>. Its second debug branch prints fields of
  \<^verbatim>\<open>this->tiles[0]\<close>, and \<^verbatim>\<open>operator[]\<close> inserts a default tile where the key is absent.
\<close>

definition newGeoJSONVT ::
  "8 word \<Rightarrow> 8 word \<Rightarrow> 32 word \<Rightarrow> double \<Rightarrow> bool \<Rightarrow> 'f GeoJSONVT" where
  "newGeoJSONVT maxZoom' indexMaxZoom' indexMaxPoints' tolerance' debug' =
     \<lparr>maxZoom = maxZoom', indexMaxZoom = indexMaxZoom', indexMaxPoints = indexMaxPoints',
      tolerance = tolerance', debug = debug',
      tiles = (\<lambda>k. None), stats = (\<lambda>k. None), total = 0\<rparr>"

definition indexOrDefault :: "'f collaborators \<Rightarrow> 'f GeoJSONVT \<Rightarrow> 64 word \<Rightarrow> 'f Tile" where
  "indexOrDefault env this k = (case tiles this k of Some t \<Rightarrow> t | None \<Rightarrow> defaultTile env)"

definition construct ::
  "'f collaborators \<Rightarrow> 'f list \<Rightarrow> 8 word \<Rightarrow> 8 word \<Rightarrow> 32 word \<Rightarrow> double \<Rightarrow> bool
     \<Rightarrow> error + 'f GeoJSONVT" where
  "construct env fs maxZoom' indexMaxZoom' indexMaxPoints' tolerance' debug' =
     (case splitTile env (newGeoJSONVT maxZoom' indexMaxZoom' indexMaxPoints' tolerance' debug')
             fs 0 0 0 0 0 0 of
        Inl e \<Rightarrow> Inl e
      | Inr this \<Rightarrow>
          Inr (if debug this
               then this\<lparr>tiles := (tiles this)(0 \<mapsto> indexOrDefault env this 0)\<rparr>
               else this))"

section \<open>The tile accessor\<close>

text \<open>
  The ancestor walk of \<^verbatim>\<open>getTile\<close>:
  \<^verbatim>\<open>while (!parent && z0) { z0--; x0 = x0 / 2; y0 = y0 / 2; ... }\<close>, by recursion on
  \<open>z0\<close>. It returns the cell it stopped at and the parent: the key and the tile found,
  or nothing for the null pointer.
\<close>

fun findParent ::
  "(64 word \<Rightarrow> 'f Tile option) \<Rightarrow> nat \<Rightarrow> 32 word \<Rightarrow> 32 word
     \<Rightarrow> error + (8 word \<times> 32 word \<times> 32 word \<times> (64 word \<times> 'f Tile) option)" where
  "findParent ts 0 x0 y0 = Inr (0, x0, y0, None)"
| "findParent ts (Suc n) x0 y0 =
     (case toID (of_nat n) (x0 div 2) (y0 div 2) of
        Inl e \<Rightarrow> Inl e
      | Inr checkID \<Rightarrow>
          (case ts checkID of
             Some t \<Rightarrow> Inr (of_nat n, x0 div 2, y0 div 2, Some (checkID, t))
           | None \<Rightarrow> findParent ts n (x0 div 2) (y0 div 2)))"

text \<open>
  \<^verbatim>\<open>return transformTile(tile, extent);\<close> for the tile stored under a key: it is
  transformed in place, and the caller gets it.
\<close>

definition returnTile ::
  "'f GeoJSONVT \<Rightarrow> 64 word \<Rightarrow> 'f Tile \<Rightarrow> error + ('f Tile \<times> 'f GeoJSONVT)" where
  "returnTile this k tile =
     (case transformTile tile extent of
        Inl e \<Rightarrow> Inl e
      | Inr t \<Rightarrow> Inr (t, this\<lparr>tiles := (tiles this)(k \<mapsto> t)\<rparr>))"

text \<open>
  \<^verbatim>\<open>getTile\<close>: the tile returned and the object afterwards. The target of the
  drill-down is the requested cell, converted to the signed parameter types of
  \<^verbatim>\<open>splitTile\<close>.
\<close>

definition getTile ::
  "'f collaborators \<Rightarrow> 'f GeoJSONVT \<Rightarrow> 8 word \<Rightarrow> 32 word \<Rightarrow> 32 word
     \<Rightarrow> error + ('f Tile \<times> 'f GeoJSONVT)" where
  "getTile env this z x y =
     (case toID z x y of
        Inl e \<Rightarrow> Inl e
      | Inr tid \<Rightarrow>
          (case tiles this tid of
             Some t \<Rightarrow> returnTile this tid t
           | None \<Rightarrow>
               (case findParent (tiles this) (unat z) x y of
                  Inl e \<Rightarrow> Inl e
                | Inr (z0, x0, y0, None) \<Rightarrow> Inl NullDereference
                | Inr (z0, x0, y0, Some (pid, parent)) \<Rightarrow>
                    (if source parent \<noteq> [] then
                       (case isClippedSquare (features parent) extent buffer of
                          Inl e \<Rightarrow> Inl e
                        | Inr True \<Rightarrow> returnTile this pid parent
                        | Inr False \<Rightarrow>
                            (case splitTile env this (source parent) z0 x0 y0 z x y of
                               Inl e \<Rightarrow> Inl e
                             | Inr this' \<Rightarrow> returnTile this' tid (indexOrDefault env this' tid)))
                     else returnTile this tid (indexOrDefault env this tid)))))"

text \<open>A client: one call of \<^verbatim>\<open>getTile\<close> after the other, and the tiles it is given.\<close>

fun getTiles ::
  "'f collaborators \<Rightarrow> 'f GeoJSONVT \<Rightarrow> (8 word \<times> 32 word \<times> 32 word) list
     \<Rightarrow> error + ('f Tile list \<times> 'f GeoJSONVT)" where
  "getTiles env this [] = Inr ([], this)"
| "getTiles env this ((z, x, y) # qs) =
     (case getTile env this z x y of
        Inl e \<Rightarrow> Inl e
      | Inr (t, this') \<Rightarrow>
          (case getTiles env this' qs of
             Inl e \<Rightarrow> Inl e
           | Inr (ts, this'') \<Rightarrow> Inr (t # ts, this'')))"

text \<open>A session: a pyramid is built and asked for tiles, one call after the other; what the client
  gets to see is the tiles it is given and the index.\<close>

definition session ::
  "'f collaborators \<Rightarrow> 'f list \<Rightarrow> 8 word \<Rightarrow> 8 word \<Rightarrow> 32 word \<Rightarrow> double \<Rightarrow> bool
     \<Rightarrow> (8 word \<times> 32 word \<times> 32 word) list \<Rightarrow> error + ('f Tile list \<times> (64 word \<Rightarrow> 'f Tile option))" where
  "session env fs mz imz imp tol dbg qs =
     (case construct env fs mz imz imp tol dbg of
        Inl e \<Rightarrow> Inl e
      | Inr pyramid \<Rightarrow>
          (case getTiles env pyramid qs of
             Inl e \<Rightarrow> Inl e
           | Inr (ts, pyramid') \<Rightarrow> Inr (ts, tiles pyramid')))"

text \<open>
  The object without its debug state: the flag off, the counters empty. The diagnostics
  themselves (\<^verbatim>\<open>printf\<close> and the clock of \<^verbatim>\<open>Time\<close>) are not part of the object and are
  not modelled.
\<close>

definition quiet :: "'f GeoJSONVT \<Rightarrow> 'f GeoJSONVT" where
  "quiet this = this\<lparr>debug := False, stats := (\<lambda>k. None), total := 0\<rparr>"

section \<open>A stand-in for the collaborators\<close>

text \<open>
  Concrete inputs need a tile factory and a clipper. \<open>plain\<close> is the plainest pair: the
  factory emits the features it is given as they are and counts one point for each, the
  clipper keeps everything. Its features are tile features. It stands for nothing in
  the repository: the theorems below hold for every factory and clipper, and \<open>plain\<close>
  only instantiates them.
\<close>

definition origin :: ProjectedPoint where
  "origin = \<lparr>pt_x = Finite 0, pt_y = Finite 0, pt_z = Finite 0\<rparr>"

definition plainTile :: "TileFeature list \<Rightarrow> 32 word \<Rightarrow> 32 word \<Rightarrow> 32 word \<Rightarrow> TileFeature Tile" where
  "plainTile fs zz x y =
     \<lparr>features = fs, numPoints = of_nat (length fs), numSimplified = of_nat (length fs),
      numFeatures = of_nat (length fs), source = [], z2 = zz, tx = x, ty = y,
      transformed = False, tile_min = origin, tile_max = origin\<rparr>"

definition plain :: "TileFeature collaborators" where
  "plain =
     \<lparr>createTile = (\<lambda>fs zz x y tol mz. plainTile fs zz x y),
      clip = (\<lambda>fs zz k1 k2 axis isect mn mx. fs),
      defaultTile = plainTile [] 0 0 0\<rparr>"

definition corner :: "real \<Rightarrow> real \<Rightarrow> ProjectedGeometry" where
  "corner a b = GPoint \<lparr>pt_x = Finite a, pt_y = Finite b, pt_z = Finite 1\<rparr>"

text \<open>A polygon whose ring runs through the four corners of the buffered square.\<close>

definition square :: TileFeature where
  "square =
     \<lparr>geometry = [GContainer [corner (- 64) (- 64), corner 4160 (- 64), corner 4160 4160,
                              corner (- 64) 4160, corner (- 64) (- 64)]],
      ftype = Polygon, tileGeometry = []\<rparr>"

text \<open>A single point at the centre of the unit square.\<close>

definition pointF :: TileFeature where
  "pointF = \<lparr>geometry = [corner (1 / 2) (1 / 2)], ftype = Point, tileGeometry = []\<rparr>"

text \<open>
  A polygon whose one ring has no vertex. \<^verbatim>\<open>isClippedSquare\<close> holds of it, as of \<open>square\<close>,
  and its transform stays within 16 bits.
\<close>

definition emptyRing :: TileFeature where
  "emptyRing = \<lparr>geometry = [GContainer []], ftype = Polygon, tileGeometry = []\<rparr>"

text \<open>
  The pyramids the constructor builds, with \<open>plain\<close>, from \<open>emptyRing\<close> alone and from no
  feature at all: the root and nothing else.
\<close>

definition filled :: "TileFeature GeoJSONVT" where
  "filled = (newGeoJSONVT 14 5 100 (Finite 3) False)
              \<lparr>tiles := [0 \<mapsto> (plainTile [emptyRing] 1 0 0)\<lparr>source := [emptyRing]\<rparr>]\<rparr>"

definition bare :: "TileFeature GeoJSONVT" where
  "bare = (newGeoJSONVT 14 5 100 (Finite 3) False)\<lparr>tiles := [0 \<mapsto> plainTile [] 1 0 0]\<rparr>"

text \<open>
  A second stand-in, whose clipper drops everything, and the pyramid it builds from
  \<open>pointF\<close> with \<^verbatim>\<open>indexMaxZoom\<close> 0: the root, with the point as its source.
\<close>

definition dropping :: "TileFeature collaborators" where
  "dropping = plain\<lparr>clip := (\<lambda>fs zz k1 k2 axis isect mn mx. [])\<rparr>"

definition leaf :: "TileFeature GeoJSONVT" where
  "leaf = (newGeoJSONVT 14 0 100 (Finite 3) False)
            \<lparr>tiles := [0 \<mapsto> (plainTile [pointF] 1 0 0)\<lparr>source := [pointF]\<rparr>]\<rparr>"

text \<open>
  A third stand-in, whose clipper keeps the point features of its range: those whose
  coordinate \<open>c\<close> on the axis has \<open>k1 \<le> c * z2 < k2\<close>.
\<close>

definition inside :: "32 word \<Rightarrow> double \<Rightarrow> double \<Rightarrow> nat \<Rightarrow> TileFeature \<Rightarrow> bool" where
  "inside zz k1 k2 axis f =
     (case geometry f of
        [GPoint p] \<Rightarrow>
          (case (if axis = 0 then pt_x p else pt_y p, k1, k2) of
             (Finite c, Finite a, Finite b) \<Rightarrow> a \<le> c * real (unat zz) \<and> c * real (unat zz) < b
           | _ \<Rightarrow> False)
      | _ \<Rightarrow> False)"

definition sieve :: "TileFeature collaborators" where
  "sieve = plain\<lparr>clip := (\<lambda>fs zz k1 k2 axis isect mn mx. filter (inside zz k1 k2 axis) fs)\<rparr>"

text \<open>
  Two points, in the cells \<open>(0, 2730)\<close> and \<open>(0, 10922)\<close> of zoom 14, a quarter of a cell
  from the left and the upper edge, and the pyramid that the constructor builds from
  them with \<open>sieve\<close>, \<^verbatim>\<open>maxZoom\<close> 15 and \<^verbatim>\<open>indexMaxZoom\<close> 0: the root, with the two
  points as its source.
\<close>

definition pointA :: TileFeature where
  "pointA = \<lparr>geometry = [corner (1 / 65536) (10921 / 65536)], ftype = Point, tileGeometry = []\<rparr>"

definition pointB :: TileFeature where
  "pointB = \<lparr>geometry = [corner (1 / 65536) (43689 / 65536)], ftype = Point, tileGeometry = []\<rparr>"

definition twoPoints :: "TileFeature GeoJSONVT" where
  "twoPoints = (newGeoJSONVT 15 0 100 (Finite 3) False)
            \<lparr>tiles := [0 \<mapsto> (plainTile [pointA, pointB] 1 0 0)\<lparr>source := [pointA, pointB]\<rparr>]\<rparr>"

text \<open>A pyramid to build from \<open>pointF\<close>: one level of index, split at every point.\<close>

definition demo :: "TileFeature GeoJSONVT" where
  "demo = newGeoJSONVT 14 1 0 (Finite 3) False"

text \<open>
  The newest iteration in a history that worked on the key \<open>k\<close>: the last one, in the
  order of the run.
\<close>

definition lastVisit :: "64 word \<Rightarrow> 'f visit list \<Rightarrow> 'f visit option" where
  "lastVisit k vs = find (\<lambda>v. toID (v_z v) (v_x v) (v_y v) = Inr k) vs"

text \<open>
  The test of the drill-down in the words of the spec: \<open>x\<close> equals
  \<open>floor (cx / 2 ^ (cz - z))\<close>, or \<open>y\<close> equals \<open>floor (cy / 2 ^ (cz - z))\<close>. On
  integers, \<open>div\<close> is the quotient rounded down.
\<close>

definition ancestorTest :: "8 word \<Rightarrow> 32 word \<Rightarrow> 32 word \<Rightarrow> 8 word \<Rightarrow> 32 word \<Rightarrow> 32 word \<Rightarrow> bool" where
  "ancestorTest z x y cz cx cy \<longleftrightarrow>
     uint x = sint cx div 2 ^ nat (sint cz - uint z)
     \<or> uint y = sint cy div 2 ^ nat (sint cz - uint z)"

text \<open>
  The coordinate of a point in tile space in the words of the spec:
  \<open>extent * (c * 2 ^ z - t)\<close>, in the arithmetic of \<^verbatim>\<open>double\<close>.
\<close>

definition tileCoordinate :: "16 word \<Rightarrow> double \<Rightarrow> nat \<Rightarrow> 32 word \<Rightarrow> double" where
  "tileCoordinate e c z t =
     mul_double (Finite (real (unat e)))
       (sub_double (mul_double c (Finite (2 ^ z))) (Finite (real (unat t))))"

text \<open>
  Rounding in the words of the spec: \<open>q\<close> is the integer nearest to \<open>v\<close>, and of the two
  integers at the same distance the one farther from zero.
\<close>

definition halfAway :: "real \<Rightarrow> int \<Rightarrow> bool" where
  "halfAway v q \<longleftrightarrow>
     \<bar>of_int q - v\<bar> < 1 / 2 \<or> (\<bar>of_int q - v\<bar> = 1 / 2 \<and> \<bar>v\<bar> < \<bar>of_int q\<bar>)"

text \<open>
  A vertex on the boundary of the buffered square, in the words of the spec: each
  coordinate equals \<open>- buffer\<close> or \<open>extent + buffer\<close>.
\<close>

definition onBufferedSquare :: "ProjectedGeometry \<Rightarrow> 16 word \<Rightarrow> 8 word \<Rightarrow> bool" where
  "onBufferedSquare m e b \<longleftrightarrow>
     (\<exists>p. m = GPoint p
        \<and> (pt_x p = Finite (- real (unat b)) \<or> pt_x p = Finite (real (unat e) + real (unat b)))
        \<and> (pt_y p = Finite (- real (unat b)) \<or> pt_y p = Finite (real (unat e) + real (unat b))))"

section \<open>Facts about the machine values\<close>

lemma sint_shl: 
  assumes "n < 31" shows "sint (2 ^ n :: 32 word) = 2 ^ n"
proof -
  have "sint (word_of_int (2 ^ n) :: 32 word) = signed_take_bit 31 (2 ^ n :: int)"
    by (simp only: sint_sbintrunc') simp
  moreover have "signed_take_bit 31 (2 ^ n :: int) = 2 ^ n"
  proof (rule signed_take_bit_int_eq_self)
    show "- (2 ^ 31) \<le> (2 ^ n :: int)"
      by (rule order_trans [of _ 0]) simp_all
    show "(2 ^ n :: int) < 2 ^ 31" by (rule power_strict_increasing) (use assms in simp_all)
  qed
  ultimately show ?thesis by (simp only: word_of_int_2p)
qed

lemma int_div_nonneg: "0 \<le> a \<Longrightarrow> 0 < b \<Longrightarrow> int_div a b = a div b"
  by (simp add: int_div_def sgn_if)

lemma sint32_lt: "sint (w :: 32 word) < 2 ^ 31"
  using sint_lt [of w] by simp

lemma int_div_shift:
  assumes "0 \<le> sint (c :: 32 word)" "n < 32"
  shows "int_div (sint c) (sint (2 ^ n :: 32 word)) = sint c div 2 ^ n"
proof (cases "n < 31")
  case True
  then show ?thesis using assms by (simp add: sint_shl int_div_nonneg)
next
  case False
  with assms have n: "n = 31" by simp
  have "sint c div 2 ^ 31 = 0" using assms(1) sint32_lt [of c] by simp
  then show ?thesis by (simp add: n int_div_def)
qed

lemma shl1_Inr_iff: "shl1 i = Inr p \<longleftrightarrow> 0 \<le> i \<and> i < 32 \<and> p = 2 ^ nat i"
  by (auto simp: shl1_def)

lemma shl1_uint_iff: "shl1 (uint (z :: 8 word)) = Inr p \<longleftrightarrow> unat z < 32 \<and> p = 2 ^ unat z"
  by (simp add: shl1_Inr_iff uint_less_32)

lemma toID_Inr:
  "toID z x y = Inr k \<longleftrightarrow> unat z < 32 \<and> k = ucast (((2 ^ unat z * y + x) * 32) + ucast z :: 32 word)"
proof (cases "shl1 (uint z)")
  case (Inl e)
  then have "\<not> unat z < 32" using shl1_uint_iff [of z] by (auto simp: shl1_def split: if_splits)
  with Inl show ?thesis by (simp add: toID_def)
next
  case (Inr p)
  then have "unat z < 32" "p = 2 ^ unat z" by (simp_all add: shl1_uint_iff)
  with Inr show ?thesis by (auto simp: toID_def)
qed

lemma binExp_ge: "- 1022 \<le> binExp r"
  by (simp add: binExp_def)

lemma binExp_small:
  assumes "\<bar>r\<bar> < 2 powi (- 1022)"
  shows "binExp r = - 1022"
proof -
  define P where "P = (2::real) ^ 1074"
  define N where "N = \<lfloor>\<bar>r\<bar> * P\<rfloor>"
  have P: "P = 2 powi 1074" "0 < P" by (simp_all add: P_def)
  have "\<bar>r\<bar> * P < 2 powi (- 1022) * P" using assms P(2) by simp
  also have "\<dots> = 2 powi (- 1022 + 1074)" unfolding P(1) by (rule power_int_add [symmetric]) simp
  also have "\<dots> = (2::real) ^ 52" by simp
  finally have "real_of_int N < 2 ^ 52" unfolding N_def by linarith
  then have "N < 2 ^ 52" by (metis of_int_less_iff of_int_numeral of_int_power)
  then have "bitlen N \<le> 52" by (simp add: bitlen_le_iff_power)
  moreover have "binExp r = max (- 1022) (bitlen N - 1075)"
    by (simp only: binExp_def N_def P_def)
  ultimately show ?thesis by simp
qed

lemma binExp_bounds:
  assumes "2 powi (- 1022) \<le> \<bar>r\<bar>"
  shows "2 powi binExp r \<le> \<bar>r\<bar>" and "\<bar>r\<bar> < 2 powi (binExp r + 1)"
proof -
  define P where "P = (2::real) ^ 1074"
  define N where "N = \<lfloor>\<bar>r\<bar> * P\<rfloor>"
  define b where "b = bitlen N"
  have P: "P = 2 powi 1074" "0 < P" by (simp_all add: P_def)
  have "(2::real) ^ 52 = 2 powi (- 1022 + 1074)" by simp
  also have "\<dots> = 2 powi (- 1022) * P" unfolding P(1) by (rule power_int_add) simp
  also have "\<dots> \<le> \<bar>r\<bar> * P" using assms P(2) by simp
  finally have "(2::real) ^ 52 \<le> \<bar>r\<bar> * P" .
  then have "2 ^ 52 \<le> N" unfolding N_def by (simp add: le_floor_iff)
  then have N0: "0 < N" and b53: "53 \<le> b"
    by (simp_all add: b_def bitlen_ge_iff_power)
  have "binExp r = max (- 1022) (bitlen N - 1075)"
    by (simp only: binExp_def N_def P_def)
  with b53 have be: "binExp r = b - 1075" by (simp add: b_def)
  from bitlen_bounds [OF N0] have lo: "2 ^ nat (b - 1) \<le> N" and hi: "N < 2 ^ nat b"
    by (simp_all add: b_def)
  have p: "(2::real) powi (b - 1075) * P = 2 ^ nat (b - 1)"
  proof -
    have "(2::real) powi (b - 1075) * P = 2 powi (b - 1075 + 1074)"
      unfolding P(1) by (rule power_int_add [symmetric]) simp
    also have "b - 1075 + 1074 = b - 1" by simp
    also have "(2::real) powi (b - 1) = 2 ^ nat (b - 1)" using b53 by (simp add: power_int_def)
    finally show ?thesis .
  qed
  have p': "(2::real) powi (b - 1074) * P = 2 ^ nat b"
  proof -
    have "(2::real) powi (b - 1074) * P = 2 powi (b - 1074 + 1074)"
      unfolding P(1) by (rule power_int_add [symmetric]) simp
    also have "b - 1074 + 1074 = b" by simp
    also have "(2::real) powi b = 2 ^ nat b" using b53 by (simp add: power_int_def)
    finally show ?thesis .
  qed
  have "real_of_int (2 ^ nat (b - 1)) \<le> real_of_int N" using lo by (simp only: of_int_le_iff)
  also have "\<dots> \<le> \<bar>r\<bar> * P" unfolding N_def by simp
  finally have "(2::real) powi (b - 1075) * P \<le> \<bar>r\<bar> * P" using p by simp
  then show "2 powi binExp r \<le> \<bar>r\<bar>" using be P(2) by simp
  have "N + 1 \<le> 2 ^ nat b" using hi by simp
  then have "real_of_int (N + 1) \<le> real_of_int (2 ^ nat b)" by (simp only: of_int_le_iff)
  moreover have "\<bar>r\<bar> * P < real_of_int (N + 1)" unfolding N_def by linarith
  ultimately have "\<bar>r\<bar> * P < (2::real) powi (b - 1074) * P" using p' by simp
  then have lt: "\<bar>r\<bar> < 2 powi (b - 1074)" using P(2) by simp
  have eq: "b - 1074 = binExp r + 1" using be by simp
  from lt show "\<bar>r\<bar> < 2 powi (binExp r + 1)" unfolding eq .
qed

lemma binExp_eq:
  assumes "2 powi e \<le> \<bar>r\<bar>" "\<bar>r\<bar> < 2 powi (e + 1)" "- 1022 \<le> e"
  shows "binExp r = e"
proof -
  have "(2::real) powi (- 1022) \<le> 2 powi e" using assms(3) by (intro power_int_increasing) simp_all
  with assms(1) have n: "2 powi (- 1022) \<le> \<bar>r\<bar>" by simp
  note b = binExp_bounds [OF n]
  have "(2::real) powi e < 2 powi (binExp r + 1)" using assms(1) b(2) by simp
  then have "e < binExp r + 1"
    by (metis power_int_increasing not_less one_le_numeral)
  moreover have "(2::real) powi binExp r < 2 powi (e + 1)" using assms(2) b(1) by simp
  then have "binExp r < e + 1"
    by (metis power_int_increasing not_less one_le_numeral)
  ultimately show ?thesis by simp
qed

lemma roundEven_of_int: "roundEven (of_int n) = n"
  by (simp add: roundEven_def)

lemma fl_exact:
  assumes r: "r = of_int m * 2 powi k" and m: "\<bar>m\<bar> < 2 ^ 53" and k: "- 1074 \<le> k"
    and fin: "\<bar>r\<bar> < 2 ^ 1024"
  shows "fl r = Finite r"
proof -
  define u where "u = binExp r - 52"
  have uk: "u \<le> k"
  proof (cases "\<bar>r\<bar> < 2 powi (- 1022)")
    case True
    then show ?thesis using k by (simp add: u_def binExp_small)
  next
    case False
    then have "2 powi binExp r \<le> \<bar>r\<bar>" by (intro binExp_bounds) simp
    also have "\<bar>r\<bar> = real_of_int \<bar>m\<bar> * 2 powi k" by (simp add: r abs_mult)
    also have "\<dots> < 2 ^ 53 * 2 powi k"
    proof -
      have "real_of_int \<bar>m\<bar> < real_of_int (2 ^ 53)" using m by (simp only: of_int_less_iff)
      then show ?thesis by simp
    qed
    also have "\<dots> = 2 powi (53 + k)" by (simp add: power_int_add)
    finally have "binExp r < 53 + k"
      by (metis power_int_increasing not_less one_le_numeral)
    then show ?thesis by (simp add: u_def)
  qed
  have "(2::real) powi k = 2 powi (k - u) * 2 powi u" by (simp flip: power_int_add)
  also have "(2::real) powi (k - u) = 2 ^ nat (k - u)" using uk by (simp add: power_int_def)
  finally have q: "r / 2 powi u = of_int (m * 2 ^ nat (k - u))" by (simp add: r)
  have "of_int (roundEven (r / 2 powi u)) * 2 powi u = r / 2 powi u * 2 powi u"
    by (simp only: q roundEven_of_int)
  also have "\<dots> = r" by simp
  finally have v: "of_int (roundEven (r / 2 powi u)) * 2 powi u = r" .
  from fin have "\<not> 2 ^ 1024 \<le> r" "\<not> r \<le> - (2 ^ 1024)" by (simp_all add: abs_less_iff)
  then show ?thesis
    unfolding fl_def u_def [symmetric] Let_def v by (simp only: if_False)
qed

lemma cround_halfAway: "halfAway v q \<longleftrightarrow> q = cround v"
proof (cases "0 \<le> v")
  case True
  have "q = \<lfloor>v + 1 / 2\<rfloor> \<longleftrightarrow> of_int q \<le> v + 1 / 2 \<and> v + 1 / 2 < of_int q + 1"
    using floor_eq_iff [of "v + 1 / 2" q] by auto
  moreover have "halfAway v q \<longleftrightarrow> of_int q \<le> v + 1 / 2 \<and> v + 1 / 2 < of_int q + 1"
  proof
    assume h: "halfAway v q"
    show "of_int q \<le> v + 1 / 2 \<and> v + 1 / 2 < of_int q + 1"
    proof (rule ccontr)
      assume n: "\<not> ?thesis"
      with h have e: "of_int q - v = - 1 / 2" and a: "\<bar>v\<bar> < \<bar>real_of_int q\<bar>"
        unfolding halfAway_def by (auto simp: abs_if split: if_splits)
      from e True a have "real_of_int q < 0" by (simp add: abs_if split: if_splits)
      then have "q \<le> - 1" by simp
      then have "real_of_int q \<le> - 1" by (metis of_int_le_iff of_int_minus of_int_1)
      with e True show False by simp
    qed
  next
    assume "of_int q \<le> v + 1 / 2 \<and> v + 1 / 2 < of_int q + 1"
    with True show "halfAway v q" unfolding halfAway_def by (auto simp: abs_if)
  qed
  ultimately show ?thesis using True by (simp add: cround_def)
next
  case False
  have "q = - \<lfloor>- v + 1 / 2\<rfloor> \<longleftrightarrow> of_int (- q) \<le> - v + 1 / 2 \<and> - v + 1 / 2 < of_int (- q) + 1"
    using floor_eq_iff [of "- v + 1 / 2" "- q"] by auto
  moreover have "halfAway v q \<longleftrightarrow> of_int (- q) \<le> - v + 1 / 2 \<and> - v + 1 / 2 < of_int (- q) + 1"
  proof
    assume h: "halfAway v q"
    show "of_int (- q) \<le> - v + 1 / 2 \<and> - v + 1 / 2 < of_int (- q) + 1"
    proof (rule ccontr)
      assume n: "\<not> ?thesis"
      with h have e: "of_int q - v = 1 / 2" and a: "\<bar>v\<bar> < \<bar>real_of_int q\<bar>"
        unfolding halfAway_def by (auto simp: abs_if split: if_splits)
      from e False have "real_of_int q < 1" by simp
      then have "q < 1" by (simp only: of_int_less_1_iff)
      then have "real_of_int q \<le> 0" by simp
      with e False a show False by (simp add: abs_if split: if_splits)
    qed
  next
    assume "of_int (- q) \<le> - v + 1 / 2 \<and> - v + 1 / 2 < of_int (- q) + 1"
    with False show "halfAway v q" unfolding halfAway_def by (auto simp: abs_if)
  qed
  ultimately show ?thesis using False by (simp add: cround_def)
qed

lemma sint16_of_int:
  assumes "- 32768 \<le> i" "i \<le> 32767"
  shows "sint (word_of_int i :: 16 word) = i"
proof -
  have "sint (word_of_int i :: 16 word) = signed_take_bit 15 i"
    by (simp only: sint_sbintrunc') simp
  also have "\<dots> = i"
    by (rule signed_take_bit_int_eq_self) (use assms in simp_all)
  finally show ?thesis .
qed

lemma to_int16_range:
  "- 32768 \<le> i \<Longrightarrow> i \<le> 32767 \<Longrightarrow> to_int16 i = Inr (word_of_int i)"
  by (simp add: to_int16_def)

lemma fl_of_int:
  assumes "\<bar>m\<bar> < 2 ^ 53"
  shows "fl (of_int m) = Finite (of_int m)"
proof -
  have "real_of_int \<bar>m\<bar> < real_of_int (2 ^ 53)" using assms by (simp only: of_int_less_iff)
  then have "\<bar>real_of_int m\<bar> < 2 ^ 1024" by simp
  with assms show ?thesis by (intro fl_exact [of _ m 0]) simp_all
qed

lemma fl_numeral: "numeral n < (2::int) ^ 53 \<Longrightarrow> fl (numeral n) = Finite (numeral n)"
  using fl_of_int [of "numeral n"] by simp

lemma fl_neg_numeral:
  "numeral n < (2::int) ^ 53 \<Longrightarrow> fl (- numeral n) = Finite (- numeral n)"
  using fl_of_int [of "- numeral n"] by simp

lemma fl_multiple_of_128:
  assumes "\<bar>m\<bar> < 2 ^ 53"
  shows "fl (of_int m / 128) = Finite (of_int m / 128)"
proof -
  have "real_of_int \<bar>m\<bar> < real_of_int (2 ^ 53)" using assms by (simp only: of_int_less_iff)
  then have "\<bar>real_of_int m / 128\<bar> < 2 ^ 1024" by simp
  with assms show ?thesis by (intro fl_exact [of _ m "- 7"]) simp_all
qed

lemma fl_zero: "fl 0 = Finite 0"
  using fl_of_int [of 0] by simp

lemma fl_half: "fl (1 / 2) = Finite (1 / 2)" "fl (- (1 / 2)) = Finite (- (1 / 2))"
  using fl_exact [of "1 / 2" 1 "- 1"] fl_exact [of "- (1 / 2)" "- 1" "- 1"] by simp_all

text \<open>
  The first operation that rounds: the difference \<open>2 ^ - 13 + 2 ^ - 65 - 1\<close> has more
  than 53 bits, and the nearest \<^verbatim>\<open>double\<close> is \<open>2 ^ - 13 - 1\<close>.
\<close>

lemma fl_rounds: "fl (2 powi (- 13) + 2 powi (- 65) - 1) = Finite (2 powi (- 13) - 1)"
proof -
  define r :: real where "r = 2 powi (- 13) + 2 powi (- 65) - 1"
  have e: "binExp r = - 1" by (rule binExp_eq) (simp_all add: r_def)
  have "roundEven (r / 2 powi (- 53)) = - 9006099743113216"
    by (simp add: roundEven_def r_def Let_def)
  then show ?thesis
    unfolding fl_def r_def [symmetric] e Let_def by simp
qed

lemma to_int16_cround: "to_int16 (cround v) = Inr w \<longleftrightarrow> halfAway v (sint w)"
proof
  assume "to_int16 (cround v) = Inr w"
  then have r: "- 32768 \<le> cround v" "cround v \<le> 32767" and w: "w = word_of_int (cround v)"
    by (auto simp: to_int16_def split: if_splits)
  from r have "sint w = cround v" unfolding w by (rule sint16_of_int)
  then show "halfAway v (sint w)" by (simp add: cround_halfAway)
next
  assume "halfAway v (sint w)"
  then have c: "cround v = sint w" by (simp add: cround_halfAway)
  have "- 32768 \<le> sint w" "sint w \<le> 32767"
    using sint_ge [of w] sint_lt [of w] by simp_all
  then have "to_int16 (sint w) = Inr (word_of_int (sint w))" by (rule to_int16_range)
  then show "to_int16 (cround v) = Inr w" by (simp add: c)
qed

lemma unat_2p32:
  assumes "n < 32"
  shows "unat (2 ^ n :: 32 word) = 2 ^ n"
proof -
  have "unat (word_of_nat (2 ^ n) :: 32 word) = 2 ^ n mod 2 ^ 32"
    by (simp only: unat_of_nat) simp
  moreover have "(2::nat) ^ n < 2 ^ 32"
    by (rule power_strict_increasing) (use assms in simp_all)
  ultimately show ?thesis by simp
qed

lemma unat_ucast_8_32: "unat (ucast (z :: 8 word) :: 32 word) = unat z"
proof -
  have "unat z < 2 ^ 8" using unsigned_less [of z] by simp
  also have "(2::nat) ^ 8 < 2 ^ 32" by simp
  finally show ?thesis by (simp add: unsigned_ucast_eq take_bit_nat_eq_self)
qed

lemma unat_ucast_32_64: "unat (ucast (w :: 32 word) :: 64 word) = unat w"
proof -
  have "unat w < 2 ^ 32" using unsigned_less [of w] by simp
  also have "(2::nat) ^ 32 < 2 ^ 64" by simp
  finally show ?thesis by (simp add: unsigned_ucast_eq take_bit_nat_eq_self)
qed

lemma low_bits:
  fixes A Z W :: nat
  assumes "W = (A * 32 mod 4294967296 + Z) mod 4294967296" "Z < 32" "W = 32"
  shows "Z = 0"
proof -
  have d: "(32::nat) dvd 4294967296" by simp
  have "W mod 32 = (A * 32 mod 4294967296 + Z) mod 32"
    unfolding assms(1) using d by (rule mod_mod_cancel)
  also have "\<dots> = ((A * 32 mod 4294967296) mod 32 + Z mod 32) mod 32"
    by (simp only: mod_add_eq)
  also have "(A * 32 mod 4294967296) mod 32 = A * 32 mod 32"
    using d by (rule mod_mod_cancel)
  also have "A * 32 mod 32 = 0" by simp
  finally have "W mod 32 = Z" using assms(2) by simp
  with assms(3) show ?thesis by simp
qed

lemma toID_not_32:
  assumes "toID z x y = Inr k" and "z \<noteq> 0"
  shows "k \<noteq> 32"
proof
  assume k: "k = 32"
  define a where "a = 2 ^ unat z * y + x"
  define w where "w = a * 32 + (ucast z :: 32 word)"
  from assms(1) have z: "unat z < 32" and kw: "k = ucast w"
    by (simp_all add: toID_Inr w_def a_def)
  from kw k have "unat (ucast w :: 64 word) = 32" by simp
  then have w32: "unat w = 32" by (simp add: unat_ucast_32_64)
  have "unat w = (unat (a * 32) + unat (ucast z :: 32 word)) mod 2 ^ 32"
    unfolding w_def by (simp only: unat_word_ariths(1)) simp
  also have "unat (a * 32) = unat a * unat (32 :: 32 word) mod 2 ^ 32"
    by (simp only: unat_word_ariths(2)) simp
  finally have "unat w = (unat a * 32 mod 4294967296 + unat z) mod 4294967296"
    by (simp add: unat_ucast_8_32)
  from this z w32 have "unat z = 0" by (rule low_bits)
  then have "z = 0" by (simp add: unat_eq_zero)
  with assms(2) show False by simp
qed

lemma succ_not_zero: "unat (z :: 8 word) < 32 \<Longrightarrow> z + 1 \<noteq> 0"
proof
  assume "unat z < 32" "z + 1 = 0"
  then have "unat (z + 1) = 0" by simp
  moreover from \<open>unat z < 32\<close> have "unat (z + 1) = unat z + 1" by (simp add: unat_word_ariths)
  ultimately show False by simp
qed

lemma inc_le8: "(z :: 8 word) \<le> M \<Longrightarrow> z \<noteq> M \<Longrightarrow> z + 1 \<le> M"
  by (rule inc_le) simp

text \<open>
  Below zoom 14 the 32-bit sum of \<open>toID\<close> does not wrap, so there the keys tell the cells
  of the pyramid apart.
\<close>

lemma key_nat_inj:
  fixes x y x' y' z z' :: nat
  assumes eq: "(2 ^ z * y + x) * 32 + z = (2 ^ z' * y' + x') * 32 + z'"
    and "z < 32" "z' < 32" "x < 2 ^ z" "x' < 2 ^ z'"
  shows "z = z' \<and> x = x' \<and> y = y'"
proof -
  have "((2 ^ z * y + x) * 32 + z) mod 32 = z" using assms(2) by (simp only: mod_mult_self3 mod_less)
  moreover have "((2 ^ z' * y' + x') * 32 + z') mod 32 = z'" using assms(3) by (simp only: mod_mult_self3 mod_less)
  ultimately have z: "z = z'" using eq by simp
  with eq have a: "2 ^ z * y + x = 2 ^ z * y' + x'" by simp
  have "(2 ^ z * y + x) mod 2 ^ z = x" using assms(4) by simp
  moreover have "(2 ^ z * y' + x') mod 2 ^ z = x'" using assms(5) z by simp
  ultimately have x: "x = x'" using a by simp
  with a have "(2::nat) ^ z * y = 2 ^ z * y'" by simp
  then have "y = y'" by simp
  with z x show ?thesis by simp
qed

lemma toID_unat:
  assumes "unat z \<le> 13" "unat x < 2 ^ unat z" "unat y < 2 ^ unat z" "toID z x y = Inr k"
  shows "unat k = (2 ^ unat z * unat y + unat x) * 32 + unat z"
proof -
  define n where "n = unat z"
  have n: "n \<le> 13" "unat x < 2 ^ n" "unat y < 2 ^ n" using assms by (simp_all add: n_def)
  have p26: "(2::nat) ^ n * 2 ^ n \<le> 2 ^ 26"
  proof -
    have "(2::nat) ^ n * 2 ^ n = 2 ^ (n + n)" by (simp add: power_add)
    also have "\<dots> \<le> 2 ^ 26" by (rule power_increasing) (use n in simp_all)
    finally show ?thesis .
  qed
  have "2 ^ n * unat y + unat x < 2 ^ n * (unat y + 1)" using n by simp
  also have "\<dots> \<le> 2 ^ n * 2 ^ n" using n by (intro mult_le_mono2) simp
  finally have s26: "2 ^ n * unat y + unat x < 2 ^ 26" using p26 by simp
  have pw: "unat (2 ^ n :: 32 word) = 2 ^ n" using n by (simp add: unat_2p32)
  have m1: "unat (2 ^ n * y :: 32 word) = 2 ^ n * unat y"
  proof -
    have "unat (2 ^ n :: 32 word) * unat y < 2 ^ 32" using s26 pw by simp
    then have "unat (2 ^ n * y :: 32 word) = unat (2 ^ n :: 32 word) * unat y"
      using unat_mult_lem [of "2 ^ n :: 32 word" y] by simp
    with pw show ?thesis by simp
  qed
  have a1: "unat (2 ^ n * y + x :: 32 word) = 2 ^ n * unat y + unat x"
  proof -
    have "unat (2 ^ n * y :: 32 word) + unat x < 2 ^ 32" using s26 m1 by simp
    then have "unat (2 ^ n * y + x :: 32 word) = unat (2 ^ n * y :: 32 word) + unat x"
      using unat_add_lem [of "2 ^ n * y :: 32 word" x] by simp
    with m1 show ?thesis by simp
  qed
  have m2: "unat ((2 ^ n * y + x) * 32 :: 32 word) = (2 ^ n * unat y + unat x) * 32"
  proof -
    have "unat (2 ^ n * y + x :: 32 word) * unat (32 :: 32 word) < 2 ^ 32" using s26 a1 by simp
    then have "unat ((2 ^ n * y + x) * 32 :: 32 word) = unat (2 ^ n * y + x :: 32 word) * unat (32 :: 32 word)"
      using unat_mult_lem [of "2 ^ n * y + x" "32 :: 32 word"] by simp
    with a1 show ?thesis by simp
  qed
  have a2: "unat ((2 ^ n * y + x) * 32 + ucast z :: 32 word) = (2 ^ n * unat y + unat x) * 32 + n"
  proof -
    have "unat ((2 ^ n * y + x) * 32 :: 32 word) + unat (ucast z :: 32 word) < 2 ^ 32"
      using s26 m2 n by (simp add: unat_ucast_8_32 n_def)
    then have "unat ((2 ^ n * y + x) * 32 + ucast z :: 32 word)
                = unat ((2 ^ n * y + x) * 32 :: 32 word) + unat (ucast z :: 32 word)"
      using unat_add_lem [of "(2 ^ n * y + x) * 32 :: 32 word" "ucast z"] by simp
    with m2 show ?thesis by (simp add: unat_ucast_8_32 n_def)
  qed
  from assms(4) have "k = ucast ((2 ^ n * y + x) * 32 + ucast z :: 32 word)"
    by (simp add: toID_Inr n_def)
  then show ?thesis using a2 by (simp add: unat_ucast_32_64 n_def)
qed

lemma toID_injective_upto_13:
  assumes "unat z \<le> 13" "unat x < 2 ^ unat z" "unat y < 2 ^ unat z"
    and "unat z' \<le> 13" "unat x' < 2 ^ unat z'" "unat y' < 2 ^ unat z'"
    and "toID z x y = Inr k" "toID z' x' y' = Inr k"
  shows "z = z' \<and> x = x' \<and> y = y'"
proof -
  from toID_unat [OF assms(1-3,7)] toID_unat [OF assms(4-6,8)]
  have "(2 ^ unat z * unat y + unat x) * 32 + unat z
        = (2 ^ unat z' * unat y' + unat x') * 32 + unat z'" by simp
  from key_nat_inj [OF this] assms(1,2,4,5)
  have "unat z = unat z' \<and> unat x = unat x' \<and> unat y = unat y'" by simp
  then show ?thesis by (simp add: word_unat_eq_iff)
qed

section \<open>Facts about the transform and the degenerate tiles\<close>

lemma transformCoord_Inr:
  assumes "shl1 (uint (z :: 8 word)) = Inr zz"
  shows "transformCoord c e zz t = Inr w
         \<longleftrightarrow> (\<exists>v. tileCoordinate e c (unat z) t = Finite v \<and> halfAway v (sint w))"
proof -
  from assms have "unat z < 32" "zz = 2 ^ unat z" by (simp_all add: shl1_uint_iff)
  then have zz: "real (unat zz) = 2 ^ unat z" by (simp add: unat_2p32)
  show ?thesis
    unfolding transformCoord_def tileCoordinate_def zz
    by (simp add: to_int16_cround split: double.split)
qed

lemma transformPoint_Inr:
  "transformPoint p e zz txv tyv = Inr q
   \<longleftrightarrow> transformCoord (pt_x p) e zz txv = Inr (tp_x q)
       \<and> transformCoord (pt_y p) e zz tyv = Inr (tp_y q)"
  by (cases q) (auto simp: transformPoint_def split: sum.splits)

text \<open>
  A coordinate that the exact arithmetic and the arithmetic of \<^verbatim>\<open>double\<close> take to two
  tile coordinates: at zoom 1, in the column 1, \<open>x = 2 ^ - 14 + 2 ^ - 66\<close> is taken to
  \<open>- 4095.5\<close>, which is rounded to \<open>- 4096\<close>, where the real numbers give
  \<open>- 4095.5 + 2 ^ - 53\<close>, which is rounded to \<open>- 4095\<close>.
\<close>

lemma transformCoord_rounds:
  "transformCoord (Finite (2 powi (- 14) + 2 powi (- 66))) 4096 2 1 = Inr (- 4096)"
  "cround (4096 * ((2 powi (- 14) + 2 powi (- 66)) * 2 - 1)) = - 4095"
proof -
  define x :: real where "x = 2 powi (- 14) + 2 powi (- 66)"
  define y :: real where "y = 2 powi (- 13) + 2 powi (- 65)"
  define w :: real where "w = 2 powi (- 13) - 1"
  have "fl y = Finite y"
    using fl_exact [of y 4503599627370497 "- 65"] by (simp add: y_def)
  moreover have "x * 2 = y" by (simp add: x_def y_def)
  ultimately have a: "fl (x * 2) = Finite y" by simp
  have b: "fl (y - 1) = Finite w"
    unfolding y_def w_def by (rule fl_rounds)
  have "fl (- (8191 / 2)) = Finite (- (8191 / 2))"
    using fl_exact [of "- (8191 / 2)" "- 8191" "- 1"] by simp
  moreover have "4096 * w = - (8191 / 2)" by (simp add: w_def)
  ultimately have c: "fl (4096 * w) = Finite (- (8191 / 2))" by simp
  have "transformCoord (Finite x) 4096 2 1 = Inr (- 4096)"
    by (simp add: transformCoord_def a b c cround_def to_int16_def)
  then show "transformCoord (Finite (2 powi (- 14) + 2 powi (- 66))) 4096 2 1 = Inr (- 4096)"
    unfolding x_def .
  show "cround (4096 * ((2 powi (- 14) + 2 powi (- 66)) * 2 - 1)) = - 4095"
    by (simp add: cround_def)
qed

lemma mapE_Inr_iff: "mapE f xs = Inr ys \<longleftrightarrow> list_all2 (\<lambda>x y. f x = Inr y) xs ys"
proof (induction xs arbitrary: ys)
  case Nil
  show ?case by auto
next
  case (Cons x xs)
  show ?case
  proof (cases "f x")
    case (Inl e)
    then show ?thesis by (auto simp: list_all2_Cons1)
  next
    case (Inr b)
    show ?thesis
    proof (cases "mapE f xs")
      case (Inl e)
      with Inr Cons show ?thesis by (auto simp: list_all2_Cons1)
    next
      case inner: (Inr bs)
      with Inr Cons show ?thesis by (auto simp: list_all2_Cons1)
    qed
  qed
qed

lemma mapE_length: "mapE f xs = Inr ys \<Longrightarrow> length ys = length xs"
  by (simp add: mapE_Inr_iff list_all2_lengthD)

lemma transformFeature_appends:
  assumes "transformFeature e zz txv tyv f = Inr f'"
  shows "geometry f' = geometry f \<and> ftype f' = ftype f
         \<and> (\<exists>new. tileGeometry f' = tileGeometry f @ new \<and> length new = length (geometry f))"
  using assms
  by (auto simp: transformFeature_def split: if_splits sum.splits dest: mapE_length)

lemma transformTile_fixed:
  "transformTile tile e = Inr tile' \<Longrightarrow> transformTile tile' e = Inr tile'"
  by (auto simp: transformTile_def split: if_splits sum.splits)

lemma squareMembers_True:
  "squareMembers ms e b = Inr True \<longleftrightarrow>
     (\<forall>m \<in> set ms. \<exists>p. m = GPoint p
        \<and> (pt_x p = Finite (- real (unat b)) \<or> pt_x p = Finite (real (unat e) + real (unat b)))
        \<and> (pt_y p = Finite (- real (unat b)) \<or> pt_y p = Finite (real (unat e) + real (unat b))))"
proof (induction ms)
  case Nil
  show ?case by simp
next
  case (Cons m ms)
  show ?case
  proof (cases m)
    case (GPoint p)
    with Cons show ?thesis by auto
  next
    case (GContainer cs)
    then show ?thesis by auto
  qed
qed

lemma isClippedSquare_True:
  "isClippedSquare fs e b = Inr True \<longleftrightarrow>
     (\<exists>feature ring. fs = [feature] \<and> ftype feature = Polygon
        \<and> geometry feature = [GContainer ring]
        \<and> (\<forall>m \<in> set ring. \<exists>p. m = GPoint p
             \<and> (pt_x p = Finite (- real (unat b)) \<or> pt_x p = Finite (real (unat e) + real (unat b)))
             \<and> (pt_y p = Finite (- real (unat b)) \<or> pt_y p = Finite (real (unat e) + real (unat b)))))"
proof (cases fs)
  case Nil
  then show ?thesis by (simp add: isClippedSquare_def)
next
  case (Cons feature rest)
  show ?thesis
  proof (cases rest)
    case (Cons f2 rest2)
    with \<open>fs = feature # rest\<close> show ?thesis by (simp add: isClippedSquare_def)
  next
    case Nil
    note fs = \<open>fs = feature # rest\<close> Nil
    show ?thesis
    proof (cases "geometry feature")
      case Nil
      with fs show ?thesis by (simp add: isClippedSquare_def)
    next
      case (Cons g gs)
      show ?thesis
      proof (cases g)
        case (GPoint p)
        with fs Cons show ?thesis by (auto simp: isClippedSquare_def)
      next
        case (GContainer ring)
        with fs Cons show ?thesis
          by (cases gs) (auto simp: isClippedSquare_def squareMembers_True)
      qed
    qed
  qed
qed

section \<open>Facts about one iteration of the builder\<close>

lemma decide_source [simp]: "decide this (t\<lparr>source := s\<rparr>) z x y cz cx cy = decide this t z x y cz cx cy"
  by (simp add: decide_def)

lemma splitStep_outcome:
  assumes "splitStep env cz cx cy this (fs, z, x, y) = Inr (this', pushed, d)"
    and "toID z x y = Inr tid" and "tiles this' tid = Some tile"
  shows "decide this tile z x y cz cx cy = Inr d"
    and "source tile = (if d = Split then [] else fs)"
    and "pushed = (if d = Split then splitChildren env fs tile z x y (2 ^ unat z) else [])"
proof -
  from assms(1) obtain zz tid' where
    zz: "shl1 (uint z) = Inr zz" and tid': "toID z x y = Inr tid'"
    and dec: "decide this ((fst (findOrCreate env this fs z x y zz tid'))\<lparr>source := fs\<rparr>) z x y cz cx cy = Inr d"
    and this': "this' = (snd (findOrCreate env this fs z x y zz tid'))
        \<lparr>tiles := (tiles (snd (findOrCreate env this fs z x y zz tid')))
           (tid' \<mapsto> (fst (findOrCreate env this fs z x y zz tid'))
                     \<lparr>source := (if d = Split then [] else fs)\<rparr>)\<rparr>"
    and pushed: "pushed = (if d = Split
               then splitChildren env fs
                      ((fst (findOrCreate env this fs z x y zz tid'))\<lparr>source := []\<rparr>) z x y zz
               else [])"
    by (rule splitStep_Inr)
  from tid' assms(2) have [simp]: "tid' = tid" by simp
  from zz have zz2: "zz = 2 ^ unat z" by (simp add: shl1_uint_iff)
  from this' assms(3) have tile:
    "tile = (fst (findOrCreate env this fs z x y zz tid))\<lparr>source := (if d = Split then [] else fs)\<rparr>"
    by simp
  from dec show "decide this tile z x y cz cx cy = Inr d" by (simp add: tile)
  show "source tile = (if d = Split then [] else fs)" by (simp add: tile)
  from pushed show "pushed = (if d = Split then splitChildren env fs tile z x y (2 ^ unat z) else [])"
    by (simp add: tile zz2)
qed

lemma decide_clipped:
  "isClippedSquare (features t) extent buffer = Inr True \<Longrightarrow> decide this t z x y cz cx cy = Inr ClippedSquare"
  by (simp add: decide_def)

lemma decide_drill_down:
  assumes "isClippedSquare (features t) extent buffer = Inr False"
    and "cz \<noteq> 0" "uint z < sint cz" "z \<noteq> maxZoom this"
    and "0 \<le> sint cx" "0 \<le> sint cy"
    and "decide this t z x y cz cx cy = Inr d"
  shows "d = (if uint x = sint cx div 2 ^ nat (sint cz - uint z)
                 \<or> uint y = sint cy div 2 ^ nat (sint cz - uint z) then Split else NotAncestor)"
proof -
  from assms(1-4,7) obtain mw where mw: "shl1 (sint cz - uint z) = Inr mw"
    by (auto simp: decide_def split: sum.splits)
  then have n: "nat (sint cz - uint z) < 32" and mw2: "mw = 2 ^ nat (sint cz - uint z)"
    by (auto simp: shl1_Inr_iff)
  have dx: "int_div (sint cx) (sint mw) = sint cx div 2 ^ nat (sint cz - uint z)"
    unfolding mw2 using assms(5) n by (rule int_div_shift)
  have dy: "int_div (sint cy) (sint mw) = sint cy div 2 ^ nat (sint cz - uint z)"
    unfolding mw2 using assms(6) n by (rule int_div_shift)
  from assms(1-4,7) show ?thesis
    by (auto simp: decide_def mw Let_def dx dy split: if_splits)
qed

lemma findOrCreate_fst:
  "fst (findOrCreate env this fs z x y zz tid)
     = (case tiles this tid of
          Some t \<Rightarrow> t
        | None \<Rightarrow> createTile env fs zz x y
                    (if z = maxZoom this then Finite 0
                     else div_double (tolerance this) (zz * ucast extent))
                    (z = maxZoom this))"
  by (simp add: findOrCreate_def Let_def split: option.splits)

lemma findOrCreate_snd [simp]:
  "tiles (snd (findOrCreate env this fs z x y zz tid)) = tiles this"
  "maxZoom (snd (findOrCreate env this fs z x y zz tid)) = maxZoom this"
  "indexMaxZoom (snd (findOrCreate env this fs z x y zz tid)) = indexMaxZoom this"
  "indexMaxPoints (snd (findOrCreate env this fs z x y zz tid)) = indexMaxPoints this"
  "tolerance (snd (findOrCreate env this fs z x y zz tid)) = tolerance this"
  "debug (snd (findOrCreate env this fs z x y zz tid)) = debug this"
  by (simp_all add: findOrCreate_def Let_def split: option.splits)

lemma splitStep_frame:
  assumes "splitStep env cz cx cy this (fs, z, x, y) = Inr (this', pushed, d)"
  shows "maxZoom this' = maxZoom this" "indexMaxZoom this' = indexMaxZoom this"
    "indexMaxPoints this' = indexMaxPoints this" "tolerance this' = tolerance this"
    "debug this' = debug this"
  using assms by (auto elim!: splitStep_Inr)

lemma splitStep_cases:
  assumes "splitStep env cz cx cy this (fs, z, x, y) = Inr (this', pushed, d)"
  obtains tid t0 where "toID z x y = Inr tid" and "unat z < 32"
    and "tiles this' = (tiles this)(tid \<mapsto> t0\<lparr>source := (if d = Split then [] else fs)\<rparr>)"
    and "\<And>t. tiles this tid = Some t \<Longrightarrow> t0 = t"
    and "decide this t0 z x y cz cx cy = Inr d"
    and "pushed = (if d = Split
                   then splitChildren env fs (t0\<lparr>source := []\<rparr>) z x y (2 ^ unat z) else [])"
proof -
  from assms obtain zz tid where
    zz: "shl1 (uint z) = Inr zz"
    and tid: "toID z x y = Inr tid"
    and dec: "decide this ((fst (findOrCreate env this fs z x y zz tid))\<lparr>source := fs\<rparr>) z x y cz cx cy = Inr d"
    and this': "this' = (snd (findOrCreate env this fs z x y zz tid))
        \<lparr>tiles := (tiles (snd (findOrCreate env this fs z x y zz tid)))
           (tid \<mapsto> (fst (findOrCreate env this fs z x y zz tid))
                     \<lparr>source := (if d = Split then [] else fs)\<rparr>)\<rparr>"
    and pushed: "pushed = (if d = Split
               then splitChildren env fs
                      ((fst (findOrCreate env this fs z x y zz tid))\<lparr>source := []\<rparr>) z x y zz
               else [])"
    by (rule splitStep_Inr)
  from zz have z: "unat z < 32" and zz2: "zz = 2 ^ unat z" by (simp_all add: shl1_uint_iff)
  show thesis
  proof (rule that [of tid "fst (findOrCreate env this fs z x y zz tid)"])
    show "toID z x y = Inr tid" by (rule tid)
    show "unat z < 32" by (rule z)
    show "tiles this' = (tiles this)(tid \<mapsto> (fst (findOrCreate env this fs z x y zz tid))
                     \<lparr>source := (if d = Split then [] else fs)\<rparr>)"
      by (simp add: this')
    show "\<And>t. tiles this tid = Some t \<Longrightarrow> fst (findOrCreate env this fs z x y zz tid) = t"
      by (simp add: findOrCreate_fst)
    from dec show "decide this (fst (findOrCreate env this fs z x y zz tid)) z x y cz cx cy = Inr d"
      by simp
    from pushed show "pushed = (if d = Split
                   then splitChildren env fs ((fst (findOrCreate env this fs z x y zz tid))\<lparr>source := []\<rparr>)
                          z x y (2 ^ unat z) else [])"
      by (simp add: zz2)
  qed
qed

lemma decide_first_pass_Split:
  assumes "decide this t z x y 0 cx cy = Inr Split"
  shows "z \<noteq> indexMaxZoom this \<and> indexMaxPoints this < numPoints t"
  using assms
  by (auto simp: decide_def split: sum.splits bool.splits if_splits)

section \<open>Facts about the loop of the builder\<close>

lemma splitLoop_rule:
  assumes "splitLoop env cz cx cy this stack vs = Inr (this', vs')"
    and "I this stack vs"
    and "\<And>this item stack vs this1 pushed d.
           I this (item # stack) vs \<Longrightarrow> splitStep env cz cx cy this item = Inr (this1, pushed, d)
           \<Longrightarrow> I this1 (stack @ pushed) (visitOf item d # vs)"
  shows "I this' [] vs'"
  using assms
proof (induction env cz cx cy this stack vs rule: splitLoop.induct)
  case (1 env cz cx cy this vs)
  then show ?case by (simp add: splitLoop.simps)
next
  case (2 env cz cx cy this item stack vs)
  from "2.prems"(1) obtain this1 pushed d where
    step: "splitStep env cz cx cy this item = Inr (this1, pushed, d)"
    and rest: "splitLoop env cz cx cy this1 (stack @ pushed) (visitOf item d # vs) = Inr (this', vs')"
    by (auto simp: splitLoop.simps split: sum.splits)
  from "2.prems"(3) [OF "2.prems"(2) step]
  have "I this1 (stack @ pushed) (visitOf item d # vs)" .
  from "2.IH" [OF step refl refl rest this "2.prems"(3)] show ?case by simp
qed

lemma root_present:
  assumes "splitLoop env cz cx cy this [(fs, 0, 0, 0)] [] = Inr (this', vs')"
  shows "tiles this' 0 \<noteq> None"
proof -
  define I where "I = (\<lambda>(this :: 'a GeoJSONVT) (stack :: 'a FeatureStackItem list) (vs :: 'a visit list).
      tiles this 0 \<noteq> None \<or> (\<exists>fs rest. stack = (fs, 0, 0, 0) # rest))"
  have "I this' [] vs'"
  proof (rule splitLoop_rule [OF assms])
    show "I this [(fs, 0, 0, 0)] []" by (simp add: I_def)
  next
    fix this :: "'a GeoJSONVT" and item :: "'a FeatureStackItem" and stack vs this1 pushed d
    assume inv: "I this (item # stack) vs"
      and step: "splitStep env cz cx cy this item = Inr (this1, pushed, d)"
    obtain fs z x y where item: "item = (fs, z, x, y)" by (cases item)
    from step [unfolded item] obtain tid t0 where
      tid: "toID z x y = Inr tid"
      and tiles: "tiles this1 = (tiles this)(tid \<mapsto> t0\<lparr>source := (if d = Split then [] else fs)\<rparr>)"
      by (rule splitStep_cases) blast
    from inv show "I this1 (stack @ pushed) (visitOf item d # vs)"
      unfolding I_def
    proof
      assume "tiles this 0 \<noteq> None"
      then show "tiles this1 0 \<noteq> None \<or> (\<exists>fs rest. stack @ pushed = (fs, 0, 0, 0) # rest)"
        by (simp add: tiles)
    next
      assume "\<exists>fs rest. item # stack = (fs, 0, 0, 0) # rest"
      then have "z = 0" "x = 0" "y = 0" by (simp_all add: item)
      with tid have "tid = 0" by (simp add: toID_def shl1_def)
      then show "tiles this1 0 \<noteq> None \<or> (\<exists>fs rest. stack @ pushed = (fs, 0, 0, 0) # rest)"
        by (simp add: tiles)
    qed
  qed
  then show ?thesis by (simp add: I_def)
qed

lemma first_pass_history:
  assumes "splitLoop env 0 cx cy this [(fs, z, x, y)] [] = Inr (this', vs')"
    and "z \<le> indexMaxZoom this"
  shows "\<forall>v \<in> set vs'. v_decision v = Split \<longrightarrow>
           v_z v < indexMaxZoom this
           \<and> (\<exists>tid t. toID (v_z v) (v_x v) (v_y v) = Inr tid \<and> tiles this' tid = Some t
                  \<and> indexMaxPoints this < numPoints t)"
proof -
  define M where "M = indexMaxZoom this"
  define P where "P = indexMaxPoints this"
  define I where "I = (\<lambda>(this :: 'a GeoJSONVT) (stack :: 'a FeatureStackItem list) (vs :: 'a visit list).
      indexMaxZoom this = M \<and> indexMaxPoints this = P
      \<and> (\<forall>c \<in> set stack. fst (snd c) \<le> M)
      \<and> (\<forall>v \<in> set vs. v_decision v = Split \<longrightarrow>
           v_z v < M \<and> (\<exists>tid t. toID (v_z v) (v_x v) (v_y v) = Inr tid \<and> tiles this tid = Some t
                  \<and> P < numPoints t)))"
  have "I this' [] vs'"
  proof (rule splitLoop_rule [OF assms(1)])
    show "I this [(fs, z, x, y)] []" using assms(2) by (simp add: I_def M_def P_def)
  next
    fix this :: "'a GeoJSONVT" and item :: "'a FeatureStackItem" and stack vs this1 pushed d
    assume inv: "I this (item # stack) vs"
      and step: "splitStep env 0 cx cy this item = Inr (this1, pushed, d)"
    obtain fs z x y where item: "item = (fs, z, x, y)" by (cases item)
    from step [unfolded item] obtain tid t0 where
      tid: "toID z x y = Inr tid"
      and tiles: "tiles this1 = (tiles this)(tid \<mapsto> t0\<lparr>source := (if d = Split then [] else fs)\<rparr>)"
      and same: "\<And>t. tiles this tid = Some t \<Longrightarrow> t0 = t"
      and dec: "decide this t0 z x y 0 cx cy = Inr d"
      and pushed: "pushed = (if d = Split
                   then splitChildren env fs (t0\<lparr>source := []\<rparr>) z x y (2 ^ unat z) else [])"
      by (rule splitStep_cases) blast
    from inv have M: "indexMaxZoom this = M" and P: "indexMaxPoints this = P"
      and zM: "z \<le> M" and stack: "\<forall>c \<in> set stack. fst (snd c) \<le> M"
      and old: "\<forall>v \<in> set vs. v_decision v = Split \<longrightarrow>
           v_z v < M \<and> (\<exists>tid t. toID (v_z v) (v_x v) (v_y v) = Inr tid \<and> tiles this tid = Some t
                  \<and> P < numPoints t)"
      by (simp_all add: I_def item)
    have frame: "indexMaxZoom this1 = M" "indexMaxPoints this1 = P"
      using splitStep_frame [OF step [unfolded item]] M P by simp_all
    have kids: "\<forall>c \<in> set (stack @ pushed). fst (snd c) \<le> M"
    proof (cases "d = Split")
      case False
      with pushed stack show ?thesis by simp
    next
      case True
      with dec M have "z \<noteq> M" using decide_first_pass_Split [of this t0 z x y cx cy] by simp
      with zM have "z + 1 \<le> M" by (rule inc_le8)
      with pushed True stack show ?thesis by (auto dest: splitChildren_zoom)
    qed
    have keep: "\<exists>tid' t'. toID (v_z v) (v_x v) (v_y v) = Inr tid' \<and> tiles this1 tid' = Some t'
                  \<and> P < numPoints t'"
      if "\<exists>tid' t'. toID (v_z v) (v_x v) (v_y v) = Inr tid' \<and> tiles this tid' = Some t'
                  \<and> P < numPoints t'" for v
    proof -
      from that obtain tid' t' where a: "toID (v_z v) (v_x v) (v_y v) = Inr tid'"
        "tiles this tid' = Some t'" "P < numPoints t'" by blast
      show ?thesis
      proof (cases "tid' = tid")
        case True
        with a same have "t0 = t'" by simp
        with a True show ?thesis by (auto simp: tiles)
      next
        case False
        with a show ?thesis by (auto simp: tiles)
      qed
    qed
    have new: "v_decision (visitOf item d) = Split \<longrightarrow>
           v_z (visitOf item d) < M
           \<and> (\<exists>tid t. toID (v_z (visitOf item d)) (v_x (visitOf item d)) (v_y (visitOf item d)) = Inr tid
                  \<and> tiles this1 tid = Some t \<and> P < numPoints t)"
    proof
      assume "v_decision (visitOf item d) = Split"
      then have d: "d = Split" by (simp add: visitOf_def item)
      with dec M P have "z \<noteq> M" "P < numPoints t0"
        using decide_first_pass_Split [of this t0 z x y cx cy] by simp_all
      with zM tid show "v_z (visitOf item d) < M
           \<and> (\<exists>tid t. toID (v_z (visitOf item d)) (v_x (visitOf item d)) (v_y (visitOf item d)) = Inr tid
                  \<and> tiles this1 tid = Some t \<and> P < numPoints t)"
        by (auto simp: visitOf_def item tiles)
    qed
    have oldkept: "\<forall>v \<in> set vs. v_decision v = Split \<longrightarrow>
           v_z v < M \<and> (\<exists>tid t. toID (v_z v) (v_x v) (v_y v) = Inr tid \<and> tiles this1 tid = Some t
                  \<and> P < numPoints t)"
    proof (intro ballI impI)
      fix v assume "v \<in> set vs" "v_decision v = Split"
      with old have "v_z v < M" and "\<exists>tid' t'. toID (v_z v) (v_x v) (v_y v) = Inr tid' \<and> tiles this tid' = Some t'
                  \<and> P < numPoints t'" by blast+
      then show "v_z v < M \<and> (\<exists>tid t. toID (v_z v) (v_x v) (v_y v) = Inr tid \<and> tiles this1 tid = Some t
                  \<and> P < numPoints t)"
        using keep [of v] by blast
    qed
    show "I this1 (stack @ pushed) (visitOf item d # vs)"
      unfolding I_def using frame kids new oldkept by simp
  qed
  then show ?thesis
    unfolding I_def M_def P_def using splitLoop_rule by simp
qed

lemma lastVisit_history:
  assumes "splitLoop env cz cx cy this [(fs, z, x, y)] [] = Inr (this', vs')"
  shows "case lastVisit k vs' of
           None \<Rightarrow> tiles this' k = tiles this k
         | Some v \<Rightarrow> \<exists>t. tiles this' k = Some t
                       \<and> source t = (if v_decision v = Split then [] else v_features v)"
proof -
  define I where "I = (\<lambda>(this1 :: 'a GeoJSONVT) (stack :: 'a FeatureStackItem list) (vs :: 'a visit list).
      \<forall>k. case lastVisit k vs of
           None \<Rightarrow> tiles this1 k = tiles this k
         | Some v \<Rightarrow> \<exists>t. tiles this1 k = Some t
                       \<and> source t = (if v_decision v = Split then [] else v_features v))"
  have "I this' [] vs'"
  proof (rule splitLoop_rule [OF assms(1)])
    show "I this [(fs, z, x, y)] []" by (simp add: I_def lastVisit_def)
  next
    fix this0 :: "'a GeoJSONVT" and item :: "'a FeatureStackItem" and stack vs this1 pushed d
    assume inv: "I this0 (item # stack) vs"
      and step: "splitStep env cz cx cy this0 item = Inr (this1, pushed, d)"
    obtain fs z x y where item: "item = (fs, z, x, y)" by (cases item)
    from step [unfolded item] obtain tid t0 where
      tid: "toID z x y = Inr tid"
      and tiles: "tiles this1 = (tiles this0)(tid \<mapsto> t0\<lparr>source := (if d = Split then [] else fs)\<rparr>)"
      by (rule splitStep_cases) blast
    have lv: "lastVisit k (visitOf item d # vs) = (if k = tid then Some (visitOf item d) else lastVisit k vs)" for k
      using tid by (auto simp: lastVisit_def visitOf_def item)
    show "I this1 (stack @ pushed) (visitOf item d # vs)"
      unfolding I_def
    proof
      fix k
      show "case lastVisit k (visitOf item d # vs) of
           None \<Rightarrow> tiles this1 k = tiles this k
         | Some v \<Rightarrow> \<exists>t. tiles this1 k = Some t
                       \<and> source t = (if v_decision v = Split then [] else v_features v)"
      proof (cases "k = tid")
        case True
        have "lastVisit k (visitOf item d # vs) = Some (visitOf item d)"
          using True by (simp add: lv)
        then show ?thesis using True by (simp add: tiles visitOf_def item)
      next
        case False
        then have eq1: "lastVisit k (visitOf item d # vs) = lastVisit k vs"
          by (simp add: lv)
        from False have eq2: "tiles this1 k = tiles this0 k"
          by (simp add: tiles)
        show ?thesis
          unfolding eq1 eq2 by (rule inv [unfolded I_def, rule_format])
      qed
    qed
  qed
  then show ?thesis by (simp add: I_def)
qed

lemma key_32_absent:
  assumes "splitLoop env cz cx cy this [(fs, 0, 0, 0)] [] = Inr (this', vs')"
    and "tiles this 32 = None"
  shows "tiles this' 32 = None"
proof -
  define I where "I = (\<lambda>(this :: 'a GeoJSONVT) (stack :: 'a FeatureStackItem list) (vs :: 'a visit list).
      tiles this 32 = None
      \<and> (\<forall>c \<in> set stack. snd c = (0, 0, 0) \<or> fst (snd c) \<noteq> 0))"
  have "I this' [] vs'"
  proof (rule splitLoop_rule [OF assms(1)])
    show "I this [(fs, 0, 0, 0)] []" using assms(2) by (simp add: I_def)
  next
    fix this :: "'a GeoJSONVT" and item :: "'a FeatureStackItem" and stack vs this1 pushed d
    assume inv: "I this (item # stack) vs"
      and step: "splitStep env cz cx cy this item = Inr (this1, pushed, d)"
    obtain fs z x y where item: "item = (fs, z, x, y)" by (cases item)
    from step [unfolded item] obtain tid t0 where
      tid: "toID z x y = Inr tid" and z: "unat z < 32"
      and tiles: "tiles this1 = (tiles this)(tid \<mapsto> t0\<lparr>source := (if d = Split then [] else fs)\<rparr>)"
      and pushed: "pushed = (if d = Split
                   then splitChildren env fs (t0\<lparr>source := []\<rparr>) z x y (2 ^ unat z) else [])"
      by (rule splitStep_cases) blast
    from inv have none: "tiles this 32 = None"
      and it: "(z, x, y) = (0, 0, 0) \<or> z \<noteq> 0"
      and stack: "\<forall>c \<in> set stack. snd c = (0, 0, 0) \<or> fst (snd c) \<noteq> 0"
      by (simp_all add: I_def item)
    from it have "tid \<noteq> 32"
    proof
      assume "(z, x, y) = (0, 0, 0)"
      with tid show ?thesis by (simp add: toID_def shl1_def)
    next
      assume "z \<noteq> 0"
      with tid show ?thesis by (rule toID_not_32)
    qed
    with none have a: "tiles this1 32 = None" by (simp add: tiles)
    have "\<forall>c \<in> set pushed. fst (snd c) \<noteq> 0"
      using pushed succ_not_zero [OF z] by (auto dest: splitChildren_zoom split: if_splits)
    with stack have "\<forall>c \<in> set (stack @ pushed). snd c = (0, 0, 0) \<or> fst (snd c) \<noteq> 0"
      by auto
    with a show "I this1 (stack @ pushed) (visitOf item d # vs)"
      by (simp add: I_def)
  qed
  then show ?thesis by (simp add: I_def)
qed

lemma construct_Inr:
  assumes "construct env fs mz imz imp tol dbg = Inr pyramid"
  obtains built vs where
    "splitLoop env 0 0 0 (newGeoJSONVT mz imz imp tol dbg) [(fs, 0, 0, 0)] [] = Inr (built, vs)"
    and "tiles pyramid = tiles built"
    and "maxZoom pyramid = maxZoom built" "indexMaxZoom pyramid = indexMaxZoom built"
    and "indexMaxPoints pyramid = indexMaxPoints built"
proof -
  from assms obtain built vs where
    loop: "splitLoop env 0 0 0 (newGeoJSONVT mz imz imp tol dbg) [(fs, 0, 0, 0)] [] = Inr (built, vs)"
    and p: "pyramid = (if debug built
               then built\<lparr>tiles := (tiles built)(0 \<mapsto> indexOrDefault env built 0)\<rparr>
               else built)"
    by (auto simp: construct_def splitTile_def split: sum.splits)
  from root_present [OF loop] obtain t where t: "tiles built 0 = Some t" by blast
  then have "(tiles built)(0 \<mapsto> indexOrDefault env built 0) = tiles built"
    by (auto simp: indexOrDefault_def)
  with p have "tiles pyramid = tiles built" by simp
  moreover from p have "maxZoom pyramid = maxZoom built" "indexMaxZoom pyramid = indexMaxZoom built"
    "indexMaxPoints pyramid = indexMaxPoints built" by simp_all
  ultimately show thesis using loop that by blast
qed

text \<open>
  What the loop does to the source of a tile, by iteration and by key: an iteration
  leaves its tile with the features it was handed, or with none exactly when it
  pushed the children; and when the loop returns, a stored tile with a source that is
  not empty was not worked on, or the last iteration that worked on its key stopped
  there and left the features it was handed.
\<close>

lemma source_follows_last_visit:
  "(splitStep env cz cx cy this (fs, z, x, y) = Inr (this', pushed, d)
      \<and> toID z x y = Inr tid \<and> tiles this' tid = Some tile
    \<longrightarrow> source tile = (if d = Split then [] else fs)
        \<and> pushed = (if d = Split then splitChildren env fs tile z x y (2 ^ unat z) else []))
   \<and> (splitLoop env cz cx cy this0 [(fs0, z0, x0, y0)] [] = Inr (this1, vs)
      \<and> tiles this1 k = Some t \<and> source t \<noteq> []
    \<longrightarrow> splitTile env this0 fs0 z0 x0 y0 cz cx cy = Inr this1
        \<and> (case lastVisit k vs of
              None \<Rightarrow> tiles this0 k = Some t
            | Some v \<Rightarrow> v_decision v \<noteq> Split \<and> source t = v_features v))"
proof (intro conjI impI)
  assume a: "splitStep env cz cx cy this (fs, z, x, y) = Inr (this', pushed, d)
      \<and> toID z x y = Inr tid \<and> tiles this' tid = Some tile"
  then have step: "splitStep env cz cx cy this (fs, z, x, y) = Inr (this', pushed, d)"
    and key: "toID z x y = Inr tid" and stored: "tiles this' tid = Some tile"
    by simp_all
  note out = splitStep_outcome [OF step key stored]
  from out(2) show "source tile = (if d = Split then [] else fs)" .
  from out(3) show "pushed = (if d = Split then splitChildren env fs tile z x y (2 ^ unat z) else [])" .
next
  assume a: "splitLoop env cz cx cy this0 [(fs0, z0, x0, y0)] [] = Inr (this1, vs)
      \<and> tiles this1 k = Some t \<and> source t \<noteq> []"
  then have loop: "splitLoop env cz cx cy this0 [(fs0, z0, x0, y0)] [] = Inr (this1, vs)"
    and t: "tiles this1 k = Some t" and s: "source t \<noteq> []"
    by simp_all
  from loop show "splitTile env this0 fs0 z0 x0 y0 cz cx cy = Inr this1"
    by (simp add: splitTile_def)
  from lastVisit_history [OF loop, of k] t s
  show "case lastVisit k vs of
              None \<Rightarrow> tiles this0 k = Some t
            | Some v \<Rightarrow> v_decision v \<noteq> Split \<and> source t = v_features v"
    by (auto split: option.splits if_splits)
qed

section \<open>Facts about the accessor and the debug state\<close>

lemma findParent_found:
  "findParent ts n x y = Inr (z0, x0, y0, Some (pid, parent)) \<Longrightarrow> ts pid = Some parent"
  by (induction n arbitrary: x y) (auto split: sum.splits option.splits)

lemma quiet_fields [simp]:
  "maxZoom (quiet this) = maxZoom this" "indexMaxZoom (quiet this) = indexMaxZoom this"
  "indexMaxPoints (quiet this) = indexMaxPoints this" "tolerance (quiet this) = tolerance this"
  "tiles (quiet this) = tiles this" "debug (quiet this) = False"
  by (simp_all add: quiet_def)

lemma quiet_tiles_update [simp]: "quiet (this\<lparr>tiles := ts\<rparr>) = (quiet this)\<lparr>tiles := ts\<rparr>"
  by (simp add: quiet_def)

lemma quiet_quiet [simp]: "quiet (quiet this) = quiet this"
  by (simp add: quiet_def)

lemma decide_quiet [simp]: "decide (quiet this) t z x y cz cx cy = decide this t z x y cz cx cy"
  by (simp add: decide_def)

lemma findOrCreate_quiet:
  "fst (findOrCreate env (quiet this) fs z x y zz tid) = fst (findOrCreate env this fs z x y zz tid)"
  "snd (findOrCreate env (quiet this) fs z x y zz tid) = quiet (snd (findOrCreate env this fs z x y zz tid))"
  by (simp_all add: findOrCreate_def Let_def quiet_def split: option.splits)

lemma splitStep_quiet:
  "splitStep env cz cx cy (quiet this) item
     = map_sum id (\<lambda>(this', pushed, d). (quiet this', pushed, d)) (splitStep env cz cx cy this item)"
proof (cases item)
  case (fields fs z x y)
  show ?thesis
    unfolding fields splitStep_def
    by (simp add: findOrCreate_quiet Let_def split: sum.splits)
qed

lemma splitLoop_quiet:
  "splitLoop env cz cx cy (quiet this) stack vs
     = map_sum id (\<lambda>(this', vs'). (quiet this', vs')) (splitLoop env cz cx cy this stack vs)"
proof (induction env cz cx cy this stack vs rule: splitLoop.induct)
  case (1 env cz cx cy this vs)
  show ?case by (simp add: splitLoop.simps)
next
  case (2 env cz cx cy this item stack vs)
  show ?case
  proof (cases "splitStep env cz cx cy this item")
    case (Inl e)
    then show ?thesis by (simp add: splitLoop.simps splitStep_quiet)
  next
    case (Inr r)
    obtain this1 pushed d where r: "r = (this1, pushed, d)" by (cases r)
    from "2.IH" [OF Inr [unfolded r] refl refl] Inr r
    show ?thesis by (simp add: splitLoop.simps splitStep_quiet)
  qed
qed

lemma splitTile_quiet:
  "splitTile env (quiet this) fs z x y cz cx cy = map_sum id quiet (splitTile env this fs z x y cz cx cy)"
  by (simp add: splitTile_def splitLoop_quiet split: sum.splits)

lemma quiet_new: "quiet (newGeoJSONVT mz imz imp tol dbg) = newGeoJSONVT mz imz imp tol False"
  by (simp add: quiet_def newGeoJSONVT_def)

lemma construct_quiet:
  "map_sum id quiet (construct env fs mz imz imp tol dbg) = construct env fs mz imz imp tol False"
proof (cases "construct env fs mz imz imp tol dbg")
  case (Inl e)
  then have "splitTile env (newGeoJSONVT mz imz imp tol dbg) fs 0 0 0 0 0 0 = Inl e"
    by (simp add: construct_def split: sum.splits)
  then have "splitTile env (quiet (newGeoJSONVT mz imz imp tol dbg)) fs 0 0 0 0 0 0 = Inl e"
    by (simp add: splitTile_quiet)
  with Inl show ?thesis by (simp add: construct_def quiet_new)
next
  case (Inr pyramid)
  then obtain built vs where
    loop: "splitLoop env 0 0 0 (newGeoJSONVT mz imz imp tol dbg) [(fs, 0, 0, 0)] [] = Inr (built, vs)"
    and tiles: "tiles pyramid = tiles built"
    by (rule construct_Inr)
  from Inr loop have p: "pyramid = (if debug built
               then built\<lparr>tiles := (tiles built)(0 \<mapsto> indexOrDefault env built 0)\<rparr>
               else built)"
    by (simp add: construct_def splitTile_def)
  from p tiles have q: "quiet pyramid = quiet built"
    by (auto simp: quiet_def split: if_splits)
  from loop have "splitTile env (newGeoJSONVT mz imz imp tol dbg) fs 0 0 0 0 0 0 = Inr built"
    by (simp add: splitTile_def)
  then have "splitTile env (quiet (newGeoJSONVT mz imz imp tol dbg)) fs 0 0 0 0 0 0 = Inr (quiet built)"
    by (simp add: splitTile_quiet)
  then have "construct env fs mz imz imp tol False = Inr (quiet built)"
    by (simp add: construct_def quiet_new)
  with Inr q show ?thesis by simp
qed

lemma returnTile_quiet:
  "returnTile (quiet this) k t = map_sum id (\<lambda>(t', this'). (t', quiet this')) (returnTile this k t)"
  by (simp add: returnTile_def split: sum.splits)

lemma indexOrDefault_quiet [simp]: "indexOrDefault env (quiet this) k = indexOrDefault env this k"
  by (simp add: indexOrDefault_def)

lemma getTile_quiet:
  "getTile env (quiet this) z x y
     = map_sum id (\<lambda>(t, this'). (t, quiet this')) (getTile env this z x y)"
  unfolding getTile_def
  by (auto simp: returnTile_quiet splitTile_quiet split: sum.splits option.splits prod.splits bool.splits)

lemma getTiles_quiet:
  "getTiles env (quiet this) qs
     = map_sum id (\<lambda>(ts, this'). (ts, quiet this')) (getTiles env this qs)"
proof (induction qs arbitrary: this)
  case Nil
  show ?case by simp
next
  case (Cons q qs)
  obtain z x y where q: "q = (z, x, y)" by (cases q)
  show ?case
  proof (cases "getTile env this z x y")
    case (Inl e)
    then show ?thesis by (simp add: q getTile_quiet)
  next
    case (Inr r)
    obtain t this1 where r: "r = (t, this1)" by (cases r)
    from Inr r Cons.IH [of this1] show ?thesis
      by (simp add: q getTile_quiet split: sum.splits)
  qed
qed

lemma session_quiet:
  "session env fs mz imz imp tol dbg qs = session env fs mz imz imp tol False qs"
proof (cases "construct env fs mz imz imp tol dbg")
  case (Inl e)
  with construct_quiet [of env fs mz imz imp tol dbg] show ?thesis
    by (simp add: session_def)
next
  case (Inr pyramid)
  with construct_quiet [of env fs mz imz imp tol dbg]
  have c: "construct env fs mz imz imp tol False = Inr (quiet pyramid)" by simp
  show ?thesis
    by (simp add: session_def Inr c getTiles_quiet split: sum.splits)
qed

section \<open>Facts about the stand-in\<close>

lemma plain_simps [simp]:
  "createTile plain fs zz x y tol mz = plainTile fs zz x y"
  "clip plain fs zz k1 k2 axis isect mn mx = fs"
  "defaultTile plain = plainTile [] 0 0 0"
  by (simp_all add: plain_def)

lemma plainTile_simps [simp]:
  "features (plainTile fs zz x y) = fs"
  "numPoints (plainTile fs zz x y) = of_nat (length fs)"
  "source (plainTile fs zz x y) = []"
  "transformed (plainTile fs zz x y) = False"
  "z2 (plainTile fs zz x y) = zz" "tx (plainTile fs zz x y) = x" "ty (plainTile fs zz x y) = y"
  by (simp_all add: plainTile_def)

lemma square_clipped: "isClippedSquare [square] extent buffer = Inr True"
  by (simp add: isClippedSquare_def square_def corner_def extent_def buffer_def)

lemma pointF_not_clipped: "isClippedSquare [pointF] extent buffer = Inr False"
  by (simp add: isClippedSquare_def pointF_def)

lemma splitChildren_plain:
  "fs \<noteq> [] \<Longrightarrow> splitChildren plain fs t z x y zz =
     [(fs, z + 1, x * 2, y * 2), (fs, z + 1, x * 2, y * 2 + 1),
      (fs, z + 1, x * 2 + 1, y * 2), (fs, z + 1, x * 2 + 1, y * 2 + 1)]"
  by (simp add: splitChildren_def pushIf_def Let_def)

lemma keys: "toID 0 0 0 = Inr 0" "toID 1 0 0 = Inr 1" "toID 1 0 1 = Inr 65" "toID 1 1 0 = Inr 33" "toID 1 1 1 = Inr 97"
  by (simp_all add: toID_def shl1_def)

lemma demo_fields [simp]:
  "maxZoom demo = 14" "indexMaxZoom demo = 1" "indexMaxPoints demo = 0" "debug demo = False"
  "tiles demo = (\<lambda>k. None)"
  by (simp_all add: demo_def newGeoJSONVT_def)

lemma run: "splitLoop plain 0 0 0 demo [([pointF], 0, 0, 0)] []
   = Inr (demo\<lparr>tiles := [0 \<mapsto> plainTile [pointF] 1 0 0,
                          1 \<mapsto> (plainTile [pointF] 2 0 0)\<lparr>source := [pointF]\<rparr>,
                          65 \<mapsto> (plainTile [pointF] 2 0 1)\<lparr>source := [pointF]\<rparr>,
                          33 \<mapsto> (plainTile [pointF] 2 1 0)\<lparr>source := [pointF]\<rparr>,
                          97 \<mapsto> (plainTile [pointF] 2 1 1)\<lparr>source := [pointF]\<rparr>]\<rparr>,
          [\<lparr>v_z = 1, v_x = 1, v_y = 1, v_features = [pointF], v_decision = FirstPassStop\<rparr>,
           \<lparr>v_z = 1, v_x = 1, v_y = 0, v_features = [pointF], v_decision = FirstPassStop\<rparr>,
           \<lparr>v_z = 1, v_x = 0, v_y = 1, v_features = [pointF], v_decision = FirstPassStop\<rparr>,
           \<lparr>v_z = 1, v_x = 0, v_y = 0, v_features = [pointF], v_decision = FirstPassStop\<rparr>,
           \<lparr>v_z = 0, v_x = 0, v_y = 0, v_features = [pointF], v_decision = Split\<rparr>])"
  by (simp add: splitLoop.simps splitStep_def keys shl1_def findOrCreate_def decide_def
      pointF_not_clipped splitChildren_plain visitOf_def plainTile_def)

lemma construct_demo:
  "construct plain [pointF] 14 1 0 (Finite 3) False
   = Inr (demo\<lparr>tiles := [0 \<mapsto> plainTile [pointF] 1 0 0,
                          1 \<mapsto> (plainTile [pointF] 2 0 0)\<lparr>source := [pointF]\<rparr>,
                          65 \<mapsto> (plainTile [pointF] 2 0 1)\<lparr>source := [pointF]\<rparr>,
                          33 \<mapsto> (plainTile [pointF] 2 1 0)\<lparr>source := [pointF]\<rparr>,
                          97 \<mapsto> (plainTile [pointF] 2 1 1)\<lparr>source := [pointF]\<rparr>]\<rparr>)"
proof -
  have "splitTile plain demo [pointF] 0 0 0 0 0 0
   = Inr (demo\<lparr>tiles := [0 \<mapsto> plainTile [pointF] 1 0 0,
                          1 \<mapsto> (plainTile [pointF] 2 0 0)\<lparr>source := [pointF]\<rparr>,
                          65 \<mapsto> (plainTile [pointF] 2 0 1)\<lparr>source := [pointF]\<rparr>,
                          33 \<mapsto> (plainTile [pointF] 2 1 0)\<lparr>source := [pointF]\<rparr>,
                          97 \<mapsto> (plainTile [pointF] 2 1 1)\<lparr>source := [pointF]\<rparr>]\<rparr>)"
    by (simp only: splitTile_def run) simp
  then show ?thesis
    unfolding construct_def demo_def [symmetric] by simp
qed

lemma emptyRing_clipped: "isClippedSquare [emptyRing] extent buffer = Inr True"
  by (simp add: isClippedSquare_def emptyRing_def)

lemma construct_filled: "construct plain [emptyRing] 14 5 100 (Finite 3) False = Inr filled"
  by (simp add: construct_def splitTile_def splitLoop.simps splitStep_def keys shl1_def
      findOrCreate_def decide_def emptyRing_clipped newGeoJSONVT_def filled_def)

lemma construct_bare: "construct plain [] 14 5 100 (Finite 3) False = Inr bare"
  by (simp add: construct_def splitTile_def splitLoop.simps splitStep_def keys shl1_def
      findOrCreate_def decide_def isClippedSquare_def newGeoJSONVT_def bare_def plainTile_def)

lemma keys5: "toID 5 3 7 = Inr 7269" "toID 4 1 3 = Inr 1572" "toID 3 0 1 = Inr 259" "toID 2 0 0 = Inr 2"
  by (simp_all add: toID_def shl1_def)

lemma findParent_5:
  "findParent ts 5 x y = findParent ts (Suc (Suc (Suc (Suc (Suc 0))))) x y"
  by (simp add: eval_nat_numeral)

lemma walk_5_3_7:
  "findParent (tiles filled) (unat (5 :: 8 word)) 3 7
     = Inr (0, 0, 0, Some (0, (plainTile [emptyRing] 1 0 0)\<lparr>source := [emptyRing]\<rparr>))"
proof -
  have "unat (5 :: 8 word) = 5" by simp
  then show ?thesis
    by (simp only: findParent_5) (simp add: keys keys5 filled_def)
qed

lemma dropping_simps [simp]:
  "createTile dropping fs zz x y tol mz = plainTile fs zz x y"
  "clip dropping fs zz k1 k2 axis isect mn mx = []"
  "defaultTile dropping = plainTile [] 0 0 0"
  by (simp_all add: dropping_def plain_def)

lemma construct_leaf: "construct dropping [pointF] 14 0 100 (Finite 3) False = Inr leaf"
  by (simp add: construct_def splitTile_def splitLoop.simps splitStep_def keys shl1_def
      findOrCreate_def decide_def pointF_not_clipped newGeoJSONVT_def leaf_def)

lemma drill_leaf:
  "splitTile dropping leaf [pointF] 0 0 0 1 0 0 = Inr (leaf\<lparr>tiles := [0 \<mapsto> plainTile [pointF] 1 0 0]\<rparr>)"
  by (simp add: splitTile_def splitLoop.simps splitStep_def keys shl1_def findOrCreate_def
      decide_def pointF_not_clipped leaf_def newGeoJSONVT_def splitChildren_def pushIf_def
      int_div_def plainTile_def)

text \<open>
  The vertices of \<open>square\<close> are at \<open>- 64\<close> and \<open>4160\<close> in projected units, where
  \<^verbatim>\<open>isClippedSquare\<close> looks for them; the transform multiplies them by the extent, and the
  result does not fit into 16 bits.
\<close>

lemma square_transform_overflows:
  "transformTile (plainTile [square] 1 0 0) extent = Inl Int16OutOfRange"
  by (simp add: transformTile_def transformFeature_def transformGeomRing_def
      transformGeomPoint_def transformPoint_def transformCoord_def fl_neg_numeral
      cround_def to_int16_def square_def corner_def extent_def)

lemma sieve_simps:
  "createTile sieve fs zz x y tol mz = plainTile fs zz x y"
  "clip sieve fs zz k1 k2 axis isect mn mx = filter (inside zz k1 k2 axis) fs"
  "defaultTile sieve = plainTile [] 0 0 0"
  by (simp_all add: sieve_def plain_def)

lemma inside_points:
  "inside zz (Finite a) (Finite b) 0 pointA \<longleftrightarrow> a \<le> 1 / 65536 * real (unat zz) \<and> 1 / 65536 * real (unat zz) < b"
  "inside zz (Finite a) (Finite b) (Suc 0) pointA \<longleftrightarrow> a \<le> 10921 / 65536 * real (unat zz) \<and> 10921 / 65536 * real (unat zz) < b"
  "inside zz (Finite a) (Finite b) 0 pointB \<longleftrightarrow> a \<le> 1 / 65536 * real (unat zz) \<and> 1 / 65536 * real (unat zz) < b"
  "inside zz (Finite a) (Finite b) (Suc 0) pointB \<longleftrightarrow> a \<le> 43689 / 65536 * real (unat zz) \<and> 43689 / 65536 * real (unat zz) < b"
  by (simp_all add: inside_def pointA_def pointB_def corner_def)

lemma points_not_clipped:
  "isClippedSquare [pointA] e b = Inr False"
  "isClippedSquare [pointB] e b = Inr False"
  "isClippedSquare [pointA, pointB] e b = Inr False"
  by (simp_all add: isClippedSquare_def pointA_def pointB_def)

lemma twoPoints_fields:
  "maxZoom twoPoints = 15" "indexMaxZoom twoPoints = 0" "indexMaxPoints twoPoints = 100"
  "debug twoPoints = False"
  "tiles twoPoints = [0 \<mapsto> (plainTile [pointA, pointB] 1 0 0)\<lparr>source := [pointA, pointB]\<rparr>]"
  by (simp_all add: twoPoints_def newGeoJSONVT_def)

text \<open>
  The drill-down from the root of \<open>twoPoints\<close> to the cell \<open>(15, 2, 5460)\<close>: thirty
  iterations, down the two paths to the cells of the two points at zoom 14 and on to
  the one child of the first.
\<close>

lemma drill:
  "\<exists>after vs t.
     splitLoop sieve 15 2 5460 twoPoints [([pointA, pointB], 0, 0, 0)] [] = Inr (after, vs)
     \<and> \<lparr>v_z = 14, v_x = 0, v_y = 2730, v_features = [pointA], v_decision = Split\<rparr> \<in> set vs
     \<and> \<lparr>v_z = 15, v_x = 0, v_y = 5460, v_features = [pointA], v_decision = DrillDownStop\<rparr> \<in> set vs
     \<and> \<lparr>v_z = 14, v_x = 0, v_y = 10922, v_features = [pointB], v_decision = NotAncestor\<rparr> \<in> set vs
     \<and> tiles after 1430257679 \<noteq> None
     \<and> tiles after 1431306254 = Some t \<and> z2 t = 16384 \<and> tx t = 0 \<and> ty t = 2730
     \<and> features t = [pointA] \<and> source t = [pointB] \<and> tiles after 1430257743 = None"
  by (simp add: splitLoop.simps splitStep_def toID_def shl1_def findOrCreate_def decide_def
      points_not_clipped int_div_def splitChildren_def pushIf_def Let_def visitOf_def
      sieve_simps inside_points twoPoints_fields extent_def buffer_def)


lemma construct_twoPoints:
  "construct sieve [pointA, pointB] 15 0 100 (Finite 3) False = Inr twoPoints"
  by (simp add: construct_def splitTile_def splitLoop.simps splitStep_def keys shl1_def
      findOrCreate_def decide_def points_not_clipped newGeoJSONVT_def twoPoints_def
      sieve_simps visitOf_def)

lemma findParent_15:
  "findParent ts 15 x y
     = findParent ts (Suc (Suc (Suc (Suc (Suc (Suc (Suc (Suc (Suc (Suc (Suc (Suc (Suc (Suc (Suc
         0))))))))))))))) x y"
  by (simp add: eval_nat_numeral)

lemma walk_15_2_5460:
  "findParent (tiles twoPoints) 15 2 5460
     = Inr (0, 0, 0, Some (0, (plainTile [pointA, pointB] 1 0 0)\<lparr>source := [pointA, pointB]\<rparr>))"
  by (simp only: findParent_15) (simp add: toID_def shl1_def twoPoints_fields)

lemma collide: "toID 14 0 2730 = Inr 1431306254" "toID 14 0 10922 = Inr 1431306254"
  "toID 15 2 5460 = Inr 1430257743" "toID 15 0 5460 = Inr 1430257679"
  by (simp_all add: toID_def shl1_def)

section \<open>The claims\<close>

subsection \<open>C1: the keys of the index\<close>

text \<open>
  C1 says that the key \<open>((2 ^ z * y) + x) * 32 + z\<close> is computed in 64 bits and that no
  two valid cells with \<open>z \<le> 24\<close> share a key. The function returns a \<^verbatim>\<open>uint64_t\<close>, but
  it computes the sum in 32 bits and widens the result: at zoom 14 the cells
  \<open>(x, y) = (0, 8192)\<close> and \<open>(0, 0)\<close>, both valid since \<open>8192 < 2 ^ 14\<close>, get the key 14.
\<close>

theorem toID_collides_at_zoom_14: "toID 14 0 8192 = Inr 14 \<and> toID 14 0 0 = Inr 14"
  by (simp add: toID_def shl1_def)

subsection \<open>C2: the ancestor test of the drill-down\<close>

text \<open>
  C2: in drill-down mode (\<open>cz \<noteq> 0\<close>), for an item \<open>(z, x, y)\<close> taken from the queue with
  \<open>z < cz\<close> and \<open>z < maxZoom\<close> whose tile is not a clipped square, the iteration pushes
  the clipped children of the cell (those of the four that are not empty) if and only if
  \<open>x = floor (cx / 2 ^ (cz - z))\<close> or \<open>y = floor (cy / 2 ^ (cz - z))\<close>, a disjunction;
  otherwise the cell is pruned and nothing is pushed. The target is a cell, so \<open>cx\<close> and
  \<open>cy\<close> are not negative. \<open>tile\<close> is the tile of the cell in the index after the
  iteration.
\<close>

theorem drill_down_keeps_the_cross:
  assumes "splitStep env cz cx cy this (fs, z, x, y) = Inr (this', pushed, d)"
    and "toID z x y = Inr tid" and "tiles this' tid = Some tile"
    and "cz \<noteq> 0" and "uint z < sint cz" and "z < maxZoom this"
    and "isClippedSquare (features tile) extent buffer = Inr False"
    and "0 \<le> sint cx" and "0 \<le> sint cy"
  shows "pushed = (if ancestorTest z x y cz cx cy
                   then splitChildren env fs tile z x y (2 ^ unat z) else [])
         \<and> d = (if ancestorTest z x y cz cx cy then Split else NotAncestor)
         \<and> source tile = (if ancestorTest z x y cz cx cy then [] else fs)"
proof -
  note out = splitStep_outcome [OF assms(1-3)]
  from assms(6) have "z \<noteq> maxZoom this" by auto
  from decide_drill_down [OF assms(7) assms(4,5) this assms(8,9) out(1)]
  have d: "d = (if ancestorTest z x y cz cx cy then Split else NotAncestor)"
    by (simp add: ancestorTest_def)
  show ?thesis using out(2,3) d by simp
qed

text \<open>
  At the target \<open>(2, 0, 0)\<close> the cell \<open>(1, 1, 0)\<close> passes the test on \<open>y\<close> alone, and its
  four children are pushed.
\<close>

theorem drill_down_keeps_the_cross_witness:
  "splitStep plain 2 0 0 (newGeoJSONVT 14 5 100 (Finite 3) False) ([pointF], 1, 1, 0)
     = Inr ((newGeoJSONVT 14 5 100 (Finite 3) False)\<lparr>tiles := [33 \<mapsto> plainTile [pointF] 2 1 0]\<rparr>,
            [([pointF], 2, 2, 0), ([pointF], 2, 2, 1), ([pointF], 2, 3, 0), ([pointF], 2, 3, 1)],
            Split)
   \<and> ancestorTest 1 1 0 2 0 0
   \<and> uint (1 :: 32 word) \<noteq> sint (0 :: 32 word) div 2 ^ nat (sint (2 :: 8 word) - uint (1 :: 8 word))
   \<and> splitChildren plain [pointF] (plainTile [pointF] 2 1 0) 1 1 0 (2 ^ unat (1 :: 8 word))
       = [([pointF], 2, 2, 0), ([pointF], 2, 2, 1), ([pointF], 2, 3, 0), ([pointF], 2, 3, 1)]"
proof -
  have key: "toID 1 1 0 = Inr 33"
    by (simp add: toID_def shl1_def)
  have step: "splitStep plain 2 0 0 (newGeoJSONVT 14 5 100 (Finite 3) False) ([pointF], 1, 1, 0)
     = Inr ((newGeoJSONVT 14 5 100 (Finite 3) False)\<lparr>tiles := [33 \<mapsto> plainTile [pointF] 2 1 0]\<rparr>,
            [([pointF], 2, 2, 0), ([pointF], 2, 2, 1), ([pointF], 2, 3, 0), ([pointF], 2, 3, 1)],
            Split)"
    by (simp add: splitStep_def key shl1_def findOrCreate_def decide_def pointF_not_clipped
        newGeoJSONVT_def splitChildren_plain int_div_def plainTile_def)
  have test: "ancestorTest 1 1 0 2 0 0"
    by (simp add: ancestorTest_def)
  from drill_down_keeps_the_cross [OF step key, of "plainTile [pointF] 2 1 0"]
  have "[([pointF], 2, 2, 0), ([pointF], 2, 2, 1), ([pointF], 2, 3, 0), ([pointF], 2, 3, 1)]
        = splitChildren plain [pointF] (plainTile [pointF] 2 1 0) 1 1 0 (2 ^ unat (1 :: 8 word))"
    by (simp add: newGeoJSONVT_def pointF_not_clipped test)
  with step test show ?thesis by simp
qed

subsection \<open>C3: clipped squares\<close>

text \<open>
  C3: \<^verbatim>\<open>isClippedSquare\<close> returns true if and only if there is exactly one feature, it
  is a polygon with one ring, and every vertex of the ring lies on the boundary of the
  buffered square; and when it returns true for the features of a tile, the iteration
  of \<^verbatim>\<open>splitTile\<close> for that tile pushes no children.
\<close>

theorem clipped_square_prunes:
  "(isClippedSquare fs e b = Inr True \<longleftrightarrow>
      (\<exists>feature ring. fs = [feature] \<and> ftype feature = Polygon
          \<and> geometry feature = [GContainer ring]
          \<and> list_all (\<lambda>m. onBufferedSquare m e b) ring))
   \<and> (splitStep env cz cx cy this (fs', z, x, y) = Inr (this', pushed, d)
        \<and> toID z x y = Inr tid \<and> tiles this' tid = Some tile
        \<and> isClippedSquare (features tile) extent buffer = Inr True
      \<longrightarrow> pushed = [] \<and> d = ClippedSquare)"
proof (intro conjI impI)
  show "isClippedSquare fs e b = Inr True \<longleftrightarrow>
      (\<exists>feature ring. fs = [feature] \<and> ftype feature = Polygon
          \<and> geometry feature = [GContainer ring]
          \<and> list_all (\<lambda>m. onBufferedSquare m e b) ring)"
    by (simp add: isClippedSquare_True onBufferedSquare_def list_all_iff)
next
  assume a: "splitStep env cz cx cy this (fs', z, x, y) = Inr (this', pushed, d)
        \<and> toID z x y = Inr tid \<and> tiles this' tid = Some tile
        \<and> isClippedSquare (features tile) extent buffer = Inr True"
  then have step: "splitStep env cz cx cy this (fs', z, x, y) = Inr (this', pushed, d)"
    and key: "toID z x y = Inr tid" and stored: "tiles this' tid = Some tile"
    and sq: "isClippedSquare (features tile) extent buffer = Inr True"
    by simp_all
  note out = splitStep_outcome [OF step key stored]
  from out(1) decide_clipped [OF sq, of this z x y cz cx cy] have d: "d = ClippedSquare" by simp
  with out(3) show "pushed = []" by simp
  from d show "d = ClippedSquare" .
qed

theorem clipped_square_prunes_witness:
  "isClippedSquare [square] extent buffer = Inr True
   \<and> list_all (\<lambda>m. onBufferedSquare m extent buffer)
        [corner (- 64) (- 64), corner 4160 (- 64), corner 4160 4160, corner (- 64) 4160,
         corner (- 64) (- 64)]
   \<and> splitStep plain 0 0 0 (newGeoJSONVT 14 5 100 (Finite 3) False) ([square], 0, 0, 0)
       = Inr ((newGeoJSONVT 14 5 100 (Finite 3) False)
                \<lparr>tiles := [0 \<mapsto> (plainTile [square] 1 0 0)\<lparr>source := [square]\<rparr>]\<rparr>,
              [], ClippedSquare)"
proof -
  have ring: "list_all (\<lambda>m. onBufferedSquare m extent buffer)
        [corner (- 64) (- 64), corner 4160 (- 64), corner 4160 4160, corner (- 64) 4160,
         corner (- 64) (- 64)]"
    by (simp add: onBufferedSquare_def corner_def extent_def buffer_def)
  have "\<exists>feature ring. [square] = [feature] \<and> ftype feature = Polygon
          \<and> geometry feature = [GContainer ring]
          \<and> list_all (\<lambda>m. onBufferedSquare m extent buffer) ring"
    using ring by (simp add: square_def)
  with clipped_square_prunes [of "[square]" extent buffer]
  have sq: "isClippedSquare [square] extent buffer = Inr True" by blast
  have key: "toID 0 0 0 = Inr 0" by (simp add: toID_def shl1_def)
  have "\<exists>this' pushed d.
          splitStep plain 0 0 0 (newGeoJSONVT 14 5 100 (Finite 3) False) ([square], 0, 0, 0)
            = Inr (this', pushed, d)
          \<and> this' = (newGeoJSONVT 14 5 100 (Finite 3) False)
                \<lparr>tiles := [0 \<mapsto> (plainTile [square] 1 0 0)\<lparr>source := [square]\<rparr>]\<rparr>"
    by (simp add: splitStep_def key shl1_def findOrCreate_def decide_def sq newGeoJSONVT_def)
  then obtain this' pushed d where
    step: "splitStep plain 0 0 0 (newGeoJSONVT 14 5 100 (Finite 3) False) ([square], 0, 0, 0)
            = Inr (this', pushed, d)"
    and this': "this' = (newGeoJSONVT 14 5 100 (Finite 3) False)
                \<lparr>tiles := [0 \<mapsto> (plainTile [square] 1 0 0)\<lparr>source := [square]\<rparr>]\<rparr>"
    by blast
  from this' have stored: "tiles this' 0 = Some ((plainTile [square] 1 0 0)\<lparr>source := [square]\<rparr>)"
    by simp
  from clipped_square_prunes [of _ _ _ plain 0 0 0 "newGeoJSONVT 14 5 100 (Finite 3) False"
      "[square]" 0 0 0 this' pushed d 0 "(plainTile [square] 1 0 0)\<lparr>source := [square]\<rparr>"]
    step key stored sq
  have "pushed = [] \<and> d = ClippedSquare" by simp
  with step this' sq ring show ?thesis by simp
qed

subsection \<open>C4: the root and the ancestor walk\<close>

text \<open>
  C4 says that every constructed pyramid holds the root key, and that therefore the
  ancestor walk of \<^verbatim>\<open>getTile\<close> ends at a tile whenever the requested key is absent, so
  that \<^verbatim>\<open>parent->source\<close> never reads a null pointer. The first half holds. The second
  fails for every constructed pyramid: the key of \<open>(0, 1, 0)\<close> is absent, the walk does
  not start at zoom 0, and \<^verbatim>\<open>parent\<close> is still null where it is dereferenced.
\<close>

theorem getTile_dereferences_null:
  assumes "construct env fs mz imz imp tol dbg = Inr pyramid"
  shows "tiles pyramid 0 \<noteq> None \<and> getTile env pyramid 0 1 0 = Inl NullDereference"
proof -
  from assms obtain built vs where
    loop: "splitLoop env 0 0 0 (newGeoJSONVT mz imz imp tol dbg) [(fs, 0, 0, 0)] [] = Inr (built, vs)"
    and tiles: "tiles pyramid = tiles built"
    by (rule construct_Inr)
  from root_present [OF loop] tiles have root: "tiles pyramid 0 \<noteq> None" by simp
  have "tiles (newGeoJSONVT mz imz imp tol dbg :: 'a GeoJSONVT) 32 = None"
    by (simp add: newGeoJSONVT_def)
  from key_32_absent [OF loop this] tiles have none: "tiles pyramid 32 = None" by simp
  have key: "toID 0 1 0 = Inr 32" by (simp add: toID_def shl1_def)
  have "getTile env pyramid 0 1 0 = Inl NullDereference"
    by (simp add: getTile_def key none)
  with root show ?thesis by simp
qed

theorem getTile_dereferences_null_witness:
  "construct plain [pointF] 14 1 0 (Finite 3) False
     = Inr (demo\<lparr>tiles := [0 \<mapsto> plainTile [pointF] 1 0 0,
                          1 \<mapsto> (plainTile [pointF] 2 0 0)\<lparr>source := [pointF]\<rparr>,
                          65 \<mapsto> (plainTile [pointF] 2 0 1)\<lparr>source := [pointF]\<rparr>,
                          33 \<mapsto> (plainTile [pointF] 2 1 0)\<lparr>source := [pointF]\<rparr>,
                          97 \<mapsto> (plainTile [pointF] 2 1 1)\<lparr>source := [pointF]\<rparr>]\<rparr>)
   \<and> getTile plain
        (demo\<lparr>tiles := [0 \<mapsto> plainTile [pointF] 1 0 0,
                          1 \<mapsto> (plainTile [pointF] 2 0 0)\<lparr>source := [pointF]\<rparr>,
                          65 \<mapsto> (plainTile [pointF] 2 0 1)\<lparr>source := [pointF]\<rparr>,
                          33 \<mapsto> (plainTile [pointF] 2 1 0)\<lparr>source := [pointF]\<rparr>,
                          97 \<mapsto> (plainTile [pointF] 2 1 1)\<lparr>source := [pointF]\<rparr>]\<rparr>) 0 1 0
       = Inl NullDereference"
  using getTile_dereferences_null [OF construct_demo] construct_demo by simp

subsection \<open>C5: the tile of an absent key\<close>

text \<open>
  C5 says that whenever the requested key is still absent after the drill-down attempt,
  \<^verbatim>\<open>getTile\<close> returns an empty sentinel tile that carries the requested \<open>(z, x, y)\<close>, the
  same at every call. Two things differ in the code. Under a clipped square that kept
  its source, \<^verbatim>\<open>getTile\<close> returns the transformed ancestor: for the pyramid \<open>filled\<close>,
  \<^verbatim>\<open>getTile(5, 3, 7)\<close> gives the root, with its feature and the cell \<open>(0, 0)\<close>, and stores
  nothing under the key. And the sentinel is the default-constructed tile of
  \<^verbatim>\<open>this->tiles[id]\<close>, which knows no cell: for the pyramid \<open>bare\<close>, \<^verbatim>\<open>getTile(1, 0, 0)\<close> and
  \<^verbatim>\<open>getTile(1, 1, 1)\<close> give the same tile.
\<close>

theorem getTile_sentinel_counterexample:
  "construct plain [emptyRing] 14 5 100 (Finite 3) False = Inr filled
   \<and> toID 5 3 7 = Inr 7269 \<and> tiles filled 7269 = None
   \<and> getTile plain filled 5 3 7
       = Inr ((plainTile [emptyRing] 1 0 0)
                \<lparr>features := [emptyRing\<lparr>tileGeometry := [GTileRing []]\<rparr>],
                 source := [emptyRing], transformed := True\<rparr>,
              filled\<lparr>tiles := [0 \<mapsto> (plainTile [emptyRing] 1 0 0)
                \<lparr>features := [emptyRing\<lparr>tileGeometry := [GTileRing []]\<rparr>],
                 source := [emptyRing], transformed := True\<rparr>]\<rparr>)
   \<and> construct plain [] 14 5 100 (Finite 3) False = Inr bare
   \<and> getTile plain bare 1 0 0
       = Inr ((plainTile [] 0 0 0)\<lparr>transformed := True\<rparr>,
              bare\<lparr>tiles := [0 \<mapsto> plainTile [] 1 0 0, 1 \<mapsto> (plainTile [] 0 0 0)\<lparr>transformed := True\<rparr>]\<rparr>)
   \<and> getTile plain bare 1 1 1
       = Inr ((plainTile [] 0 0 0)\<lparr>transformed := True\<rparr>,
              bare\<lparr>tiles := [0 \<mapsto> plainTile [] 1 0 0, 97 \<mapsto> (plainTile [] 0 0 0)\<lparr>transformed := True\<rparr>]\<rparr>)"
proof -
  have a: "getTile plain filled 5 3 7
       = Inr ((plainTile [emptyRing] 1 0 0)
                \<lparr>features := [emptyRing\<lparr>tileGeometry := [GTileRing []]\<rparr>],
                 source := [emptyRing], transformed := True\<rparr>,
              filled\<lparr>tiles := [0 \<mapsto> (plainTile [emptyRing] 1 0 0)
                \<lparr>features := [emptyRing\<lparr>tileGeometry := [GTileRing []]\<rparr>],
                 source := [emptyRing], transformed := True\<rparr>]\<rparr>)"
    unfolding getTile_def
    by (simp only: keys5 walk_5_3_7)
       (simp add: filled_def isClippedSquare_def returnTile_def transformTile_def
          transformFeature_def transformGeomRing_def emptyRing_def plainTile_def)
  have b: "getTile plain bare 1 0 0
       = Inr ((plainTile [] 0 0 0)\<lparr>transformed := True\<rparr>,
              bare\<lparr>tiles := [0 \<mapsto> plainTile [] 1 0 0, 1 \<mapsto> (plainTile [] 0 0 0)\<lparr>transformed := True\<rparr>]\<rparr>)"
    unfolding getTile_def
    by (simp add: keys bare_def returnTile_def indexOrDefault_def transformTile_def
        plainTile_def)
  have c: "getTile plain bare 1 1 1
       = Inr ((plainTile [] 0 0 0)\<lparr>transformed := True\<rparr>,
              bare\<lparr>tiles := [0 \<mapsto> plainTile [] 1 0 0, 97 \<mapsto> (plainTile [] 0 0 0)\<lparr>transformed := True\<rparr>]\<rparr>)"
    unfolding getTile_def
    by (simp add: keys bare_def returnTile_def indexOrDefault_def transformTile_def
        plainTile_def)
  have "tiles filled 7269 = None" by (simp add: filled_def)
  with a b c construct_filled construct_bare keys5(1) show ?thesis by blast
qed

text \<open>
  C5 as amended: for a key that is absent, when the ancestor walk finds a tile: if that
  ancestor has a source and is a clipped square, \<^verbatim>\<open>getTile\<close> returns the transformed
  ancestor, writes it back under the ancestor's key, and the requested key stays
  absent. Otherwise, if the key is still absent after the drill-down (or the ancestor
  has no source to drill from), \<^verbatim>\<open>getTile\<close> stores under the key and returns the
  transformed default-constructed tile, whatever \<open>(z, x, y)\<close> is, and a second call for the
  same \<open>(z, x, y)\<close> returns the same tile and leaves the index as it is.
\<close>

theorem getTile_absent_key:
  assumes "toID z x y = Inr tid" and "tiles this tid = None"
    and "findParent (tiles this) (unat z) x y = Inr (z0, x0, y0, Some (pid, parent))"
  shows "(source parent \<noteq> [] \<and> isClippedSquare (features parent) extent buffer = Inr True
            \<and> transformTile parent extent = Inr parent'
          \<longrightarrow> getTile env this z x y = Inr (parent', this\<lparr>tiles := (tiles this)(pid \<mapsto> parent')\<rparr>)
              \<and> ((tiles this)(pid \<mapsto> parent')) tid = None)
       \<and> (transformTile (defaultTile env) extent = Inr sentinel
            \<and> (if source parent = [] then after = this
                else isClippedSquare (features parent) extent buffer = Inr False
                     \<and> splitTile env this (source parent) z0 x0 y0 z x y = Inr after)
            \<and> tiles after tid = None
          \<longrightarrow> getTile env this z x y = Inr (sentinel, after\<lparr>tiles := (tiles after)(tid \<mapsto> sentinel)\<rparr>)
              \<and> getTile env (after\<lparr>tiles := (tiles after)(tid \<mapsto> sentinel)\<rparr>) z x y
                  = Inr (sentinel, after\<lparr>tiles := (tiles after)(tid \<mapsto> sentinel)\<rparr>))"
proof (intro conjI impI)
  assume a: "source parent \<noteq> [] \<and> isClippedSquare (features parent) extent buffer = Inr True
            \<and> transformTile parent extent = Inr parent'"
  with assms show "getTile env this z x y = Inr (parent', this\<lparr>tiles := (tiles this)(pid \<mapsto> parent')\<rparr>)"
    by (simp add: getTile_def returnTile_def)
  from findParent_found [OF assms(3)] assms(2) have "pid \<noteq> tid" by auto
  with assms(2) show "((tiles this)(pid \<mapsto> parent')) tid = None" by simp
next
  assume a: "transformTile (defaultTile env) extent = Inr sentinel
            \<and> (if source parent = [] then after = this
                else isClippedSquare (features parent) extent buffer = Inr False
                     \<and> splitTile env this (source parent) z0 x0 y0 z x y = Inr after)
            \<and> tiles after tid = None"
  then have s: "transformTile (defaultTile env) extent = Inr sentinel"
    and absent: "tiles after tid = None" by simp_all
  from a assms show "getTile env this z x y = Inr (sentinel, after\<lparr>tiles := (tiles after)(tid \<mapsto> sentinel)\<rparr>)"
    by (auto simp: getTile_def returnTile_def indexOrDefault_def split: if_splits)
  from transformTile_fixed [OF s] assms(1)
  show "getTile env (after\<lparr>tiles := (tiles after)(tid \<mapsto> sentinel)\<rparr>) z x y
                  = Inr (sentinel, after\<lparr>tiles := (tiles after)(tid \<mapsto> sentinel)\<rparr>)"
    by (simp add: getTile_def returnTile_def)
qed

theorem getTile_absent_key_witness:
  "construct dropping [pointF] 14 0 100 (Finite 3) False = Inr leaf
   \<and> toID 1 0 0 = Inr 1 \<and> tiles leaf 1 = None
   \<and> findParent (tiles leaf) (unat (1 :: 8 word)) 0 0
       = Inr (0, 0, 0, Some (0, (plainTile [pointF] 1 0 0)\<lparr>source := [pointF]\<rparr>))
   \<and> isClippedSquare [pointF] extent buffer = Inr False
   \<and> splitTile dropping leaf [pointF] 0 0 0 1 0 0 = Inr (leaf\<lparr>tiles := [0 \<mapsto> plainTile [pointF] 1 0 0]\<rparr>)
   \<and> transformTile (defaultTile dropping) extent = Inr ((plainTile [] 0 0 0)\<lparr>transformed := True\<rparr>)
   \<and> getTile dropping leaf 1 0 0
       = Inr ((plainTile [] 0 0 0)\<lparr>transformed := True\<rparr>,
              leaf\<lparr>tiles := [0 \<mapsto> plainTile [pointF] 1 0 0,
                                1 \<mapsto> (plainTile [] 0 0 0)\<lparr>transformed := True\<rparr>]\<rparr>)
   \<and> getTile dropping
        (leaf\<lparr>tiles := [0 \<mapsto> plainTile [pointF] 1 0 0,
                          1 \<mapsto> (plainTile [] 0 0 0)\<lparr>transformed := True\<rparr>]\<rparr>) 1 0 0
       = Inr ((plainTile [] 0 0 0)\<lparr>transformed := True\<rparr>,
              leaf\<lparr>tiles := [0 \<mapsto> plainTile [pointF] 1 0 0,
                                1 \<mapsto> (plainTile [] 0 0 0)\<lparr>transformed := True\<rparr>]\<rparr>)
   \<and> toID 5 3 7 = Inr 7269 \<and> tiles filled 7269 = None
   \<and> findParent (tiles filled) (unat (5 :: 8 word)) 3 7
       = Inr (0, 0, 0, Some (0, (plainTile [emptyRing] 1 0 0)\<lparr>source := [emptyRing]\<rparr>))
   \<and> isClippedSquare [emptyRing] extent buffer = Inr True
   \<and> getTile plain filled 5 3 7
       = Inr ((plainTile [emptyRing] 1 0 0)
                \<lparr>features := [emptyRing\<lparr>tileGeometry := [GTileRing []]\<rparr>],
                 source := [emptyRing], transformed := True\<rparr>,
              filled\<lparr>tiles := [0 \<mapsto> (plainTile [emptyRing] 1 0 0)
                \<lparr>features := [emptyRing\<lparr>tileGeometry := [GTileRing []]\<rparr>],
                 source := [emptyRing], transformed := True\<rparr>]\<rparr>)"
proof -
  have k: "toID 1 0 0 = Inr 1" by (rule keys)
  have absent: "tiles leaf 1 = None" by (simp add: leaf_def)
  have walk: "findParent (tiles leaf) (unat (1 :: 8 word)) 0 0
       = Inr (0, 0, 0, Some (0, (plainTile [pointF] 1 0 0)\<lparr>source := [pointF]\<rparr>))"
    by (simp add: keys leaf_def)
  have s: "transformTile (defaultTile dropping) extent = Inr ((plainTile [] 0 0 0)\<lparr>transformed := True\<rparr>)"
    by (simp add: transformTile_def plainTile_def)
  have after: "tiles (leaf\<lparr>tiles := [0 \<mapsto> plainTile [pointF] 1 0 0]\<rparr>) 1 = None" by simp
  from getTile_absent_key [OF k absent walk, of _ dropping "(plainTile [] 0 0 0)\<lparr>transformed := True\<rparr>"
      "leaf\<lparr>tiles := [0 \<mapsto> plainTile [pointF] 1 0 0]\<rparr>"]
    s drill_leaf pointF_not_clipped after
  have sentinel: "getTile dropping leaf 1 0 0
       = Inr ((plainTile [] 0 0 0)\<lparr>transformed := True\<rparr>,
              leaf\<lparr>tiles := [0 \<mapsto> plainTile [pointF] 1 0 0,
                                1 \<mapsto> (plainTile [] 0 0 0)\<lparr>transformed := True\<rparr>]\<rparr>)
   \<and> getTile dropping
        (leaf\<lparr>tiles := [0 \<mapsto> plainTile [pointF] 1 0 0,
                          1 \<mapsto> (plainTile [] 0 0 0)\<lparr>transformed := True\<rparr>]\<rparr>) 1 0 0
       = Inr ((plainTile [] 0 0 0)\<lparr>transformed := True\<rparr>,
              leaf\<lparr>tiles := [0 \<mapsto> plainTile [pointF] 1 0 0,
                                1 \<mapsto> (plainTile [] 0 0 0)\<lparr>transformed := True\<rparr>]\<rparr>)"
    by simp
  have absent': "tiles filled 7269 = None" by (simp add: filled_def)
  have t: "transformTile ((plainTile [emptyRing] 1 0 0)\<lparr>source := [emptyRing]\<rparr>) extent
       = Inr ((plainTile [emptyRing] 1 0 0)
                \<lparr>features := [emptyRing\<lparr>tileGeometry := [GTileRing []]\<rparr>],
                 source := [emptyRing], transformed := True\<rparr>)"
    by (simp add: transformTile_def transformFeature_def transformGeomRing_def emptyRing_def
        plainTile_def)
  from getTile_absent_key [OF keys5(1) absent' walk_5_3_7, of _ plain] t emptyRing_clipped
  have clipped: "getTile plain filled 5 3 7
       = Inr ((plainTile [emptyRing] 1 0 0)
                \<lparr>features := [emptyRing\<lparr>tileGeometry := [GTileRing []]\<rparr>],
                 source := [emptyRing], transformed := True\<rparr>,
              filled\<lparr>tiles := [0 \<mapsto> (plainTile [emptyRing] 1 0 0)
                \<lparr>features := [emptyRing\<lparr>tileGeometry := [GTileRing []]\<rparr>],
                 source := [emptyRing], transformed := True\<rparr>]\<rparr>)"
    by (simp add: filled_def)
  from construct_leaf k absent walk pointF_not_clipped drill_leaf s sentinel keys5(1) absent'
    walk_5_3_7 emptyRing_clipped clipped
  show ?thesis by blast
qed

subsection \<open>C6: the transform of a point\<close>

text \<open>
  C6: \<^verbatim>\<open>transformPoint\<close> maps the point \<open>(a, b)\<close> of a tile at \<open>(z, tx, ty)\<close>, whose
  \<^verbatim>\<open>z2\<close> is \<open>2 ^ z\<close>, to \<open>(round (extent * (a * 2 ^ z - tx)), round (extent * (b * 2 ^ z - ty)))\<close>
  as signed 16-bit coordinates, the arithmetic being that of \<^verbatim>\<open>double\<close> and \<open>round\<close> going
  to the nearest integer, a half away from zero. It clamps nothing: it returns the
  point \<open>q\<close> exactly when the two values are finite and the coordinates of \<open>q\<close> are what
  they are rounded to, so that it returns no point where a rounded value is not a
  signed 16-bit integer. The witness has the three cases: values that are rounded
  away from zero, a value that does not fit, and a coordinate whose difference is
  rounded by the arithmetic of \<^verbatim>\<open>double\<close>. And a tile at zoom 0 with the single point \<open>(0.5, 0.5)\<close> is
  transformed, at extent 4096, into a tile with one \<open>Point\<close> feature whose tile point is
  \<open>(2048, 2048)\<close>.
\<close>

theorem transformPoint_rounds_and_keeps:
  "(shl1 (uint (z :: 8 word)) = Inr zz
    \<longrightarrow> (transformPoint p e zz txv tyv = Inr q
         \<longleftrightarrow> (\<exists>va vb. tileCoordinate e (pt_x p) (unat z) txv = Finite va
                     \<and> tileCoordinate e (pt_y p) (unat z) tyv = Finite vb
                     \<and> halfAway va (sint (tp_x q)) \<and> halfAway vb (sint (tp_y q)))))
   \<and> (\<not> transformed tile \<and> z2 tile = 1 \<and> tx tile = 0 \<and> ty tile = 0
        \<and> features tile =
            [\<lparr>geometry = [GPoint \<lparr>pt_x = Finite (1 / 2), pt_y = Finite (1 / 2), pt_z = c\<rparr>],
              ftype = Point, tileGeometry = []\<rparr>]
      \<longrightarrow> transformTile tile 4096 =
            Inr (tile\<lparr>features :=
                   [\<lparr>geometry = [GPoint \<lparr>pt_x = Finite (1 / 2), pt_y = Finite (1 / 2), pt_z = c\<rparr>],
                     ftype = Point, tileGeometry = [GTilePoint \<lparr>tp_x = 2048, tp_y = 2048\<rparr>]\<rparr>],
                   transformed := True\<rparr>))"
proof (intro conjI impI)
  assume z: "shl1 (uint z) = Inr zz"
  show "transformPoint p e zz txv tyv = Inr q
         \<longleftrightarrow> (\<exists>va vb. tileCoordinate e (pt_x p) (unat z) txv = Finite va
                     \<and> tileCoordinate e (pt_y p) (unat z) tyv = Finite vb
                     \<and> halfAway va (sint (tp_x q)) \<and> halfAway vb (sint (tp_y q)))"
    unfolding transformPoint_Inr transformCoord_Inr [OF z] by blast
next
  assume "\<not> transformed tile \<and> z2 tile = 1 \<and> tx tile = 0 \<and> ty tile = 0
        \<and> features tile =
            [\<lparr>geometry = [GPoint \<lparr>pt_x = Finite (1 / 2), pt_y = Finite (1 / 2), pt_z = c\<rparr>],
              ftype = Point, tileGeometry = []\<rparr>]"
  then show "transformTile tile 4096 =
            Inr (tile\<lparr>features :=
                   [\<lparr>geometry = [GPoint \<lparr>pt_x = Finite (1 / 2), pt_y = Finite (1 / 2), pt_z = c\<rparr>],
                     ftype = Point, tileGeometry = [GTilePoint \<lparr>tp_x = 2048, tp_y = 2048\<rparr>]\<rparr>],
                   transformed := True\<rparr>)"
    by (simp add: transformTile_def transformFeature_def transformGeomPoint_def
        transformPoint_def transformCoord_def fl_half fl_numeral cround_def to_int16_def)
qed

theorem transformPoint_rounds_and_keeps_witness:
  "shl1 (uint (0 :: 8 word)) = Inr 1
   \<and> tileCoordinate 4096 (Finite (1 / 2)) 0 0 = Finite 2048 \<and> halfAway 2048 2048
   \<and> transformPoint \<lparr>pt_x = Finite (1 / 2), pt_y = Finite (1 / 2), pt_z = Finite 1\<rparr> 4096 1 0 0
       = Inr \<lparr>tp_x = 2048, tp_y = 2048\<rparr>
   \<and> shl1 (uint (1 :: 8 word)) = Inr 2
   \<and> tileCoordinate 4096 (Finite (8191 / 16384)) 1 1 = Finite (- (1 / 2)) \<and> halfAway (- (1 / 2)) (- 1)
   \<and> tileCoordinate 4096 (Finite (1 / 16384)) 1 0 = Finite (1 / 2) \<and> halfAway (1 / 2) 1
   \<and> transformPoint \<lparr>pt_x = Finite (8191 / 16384), pt_y = Finite (1 / 16384), pt_z = Finite 1\<rparr>
         4096 2 1 0
       = Inr \<lparr>tp_x = - 1, tp_y = 1\<rparr>
   \<and> tileCoordinate 4096 (Finite 9) 0 0 = Finite 36864
   \<and> transformPoint \<lparr>pt_x = Finite 9, pt_y = Finite (1 / 2), pt_z = Finite 1\<rparr> 4096 1 0 0
       = Inl Int16OutOfRange
   \<and> transformPoint
         \<lparr>pt_x = Finite (2 powi (- 14) + 2 powi (- 66)), pt_y = Finite (1 / 2), pt_z = Finite 1\<rparr>
         4096 2 1 0
       = Inr \<lparr>tp_x = - 4096, tp_y = 4096\<rparr>
   \<and> transformTile (plainTile [pointF] 1 0 0) 4096 =
        Inr ((plainTile [pointF] 1 0 0)
               \<lparr>features := [pointF\<lparr>tileGeometry := [GTilePoint \<lparr>tp_x = 2048, tp_y = 2048\<rparr>]\<rparr>],
                transformed := True\<rparr>)"
proof -
  have s0: "shl1 (uint (0 :: 8 word)) = Inr 1" and s1: "shl1 (uint (1 :: 8 word)) = Inr 2"
    by (simp_all add: shl1_def)
  have c0: "tileCoordinate 4096 (Finite (1 / 2)) 0 0 = Finite 2048"
    by (simp add: tileCoordinate_def fl_half fl_numeral)
  have f1: "fl (8191 / 8192) = Finite (8191 / 8192)" "fl (- (1 / 8192)) = Finite (- (1 / 8192))"
    "fl (1 / 8192) = Finite (1 / 8192)"
    using fl_exact [of "8191 / 8192" 8191 "- 13"] fl_exact [of "- (1 / 8192)" "- 1" "- 13"]
      fl_exact [of "1 / 8192" 1 "- 13"]
    by simp_all
  have c1: "tileCoordinate 4096 (Finite (8191 / 16384)) 1 1 = Finite (- (1 / 2))"
    and c2: "tileCoordinate 4096 (Finite (1 / 16384)) 1 0 = Finite (1 / 2)"
    by (simp_all add: tileCoordinate_def f1 fl_half)
  have c3: "tileCoordinate 4096 (Finite 9) 0 0 = Finite 36864"
    by (simp add: tileCoordinate_def fl_numeral)
  have h: "halfAway 2048 2048" "halfAway (- (1 / 2)) (- 1)" "halfAway (1 / 2) 1"
    by (simp_all add: halfAway_def)
  let ?P0 = "\<lparr>pt_x = Finite (1 / 2), pt_y = Finite (1 / 2), pt_z = Finite 1\<rparr>"
  let ?Q0 = "\<lparr>tp_x = 2048, tp_y = 2048\<rparr>"
  let ?P1 = "\<lparr>pt_x = Finite (8191 / 16384), pt_y = Finite (1 / 16384), pt_z = Finite 1\<rparr>"
  let ?Q1 = "\<lparr>tp_x = - 1, tp_y = 1\<rparr>"
  note inst = transformPoint_rounds_and_keeps
  have e0: "\<exists>va vb. tileCoordinate 4096 (pt_x ?P0) (unat (0 :: 8 word)) 0 = Finite va
                 \<and> tileCoordinate 4096 (pt_y ?P0) (unat (0 :: 8 word)) 0 = Finite vb
                 \<and> halfAway va (sint (tp_x ?Q0)) \<and> halfAway vb (sint (tp_y ?Q0))"
    by (rule exI [of _ 2048], rule exI [of _ 2048]) (use c0 h in simp)
  from inst [of 0 1 ?P0 4096 0 0 ?Q0 "plainTile [pointF] 1 0 0" "Finite 1",
             THEN conjunct1, THEN mp, OF s0, THEN iffD2, OF e0]
  have p0: "transformPoint ?P0 4096 1 0 0 = Inr ?Q0" .
  have e1: "\<exists>va vb. tileCoordinate 4096 (pt_x ?P1) (unat (1 :: 8 word)) 1 = Finite va
                 \<and> tileCoordinate 4096 (pt_y ?P1) (unat (1 :: 8 word)) 0 = Finite vb
                 \<and> halfAway va (sint (tp_x ?Q1)) \<and> halfAway vb (sint (tp_y ?Q1))"
    by (rule exI [of _ "- (1 / 2)"], rule exI [of _ "1 / 2"]) (use c1 c2 h in simp)
  from inst [of 1 2 ?P1 4096 1 0 ?Q1 "plainTile [pointF] 1 0 0" "Finite 1",
             THEN conjunct1, THEN mp, OF s1, THEN iffD2, OF e1]
  have p1: "transformPoint ?P1 4096 2 1 0 = Inr ?Q1" .
  have p2: "transformPoint \<lparr>pt_x = Finite 9, pt_y = Finite (1 / 2), pt_z = Finite 1\<rparr> 4096 1 0 0
       = Inl Int16OutOfRange"
    by (simp add: transformPoint_def transformCoord_def fl_numeral cround_def to_int16_def)
  have "transformCoord (Finite (1 / 2)) 4096 2 0 = Inr 4096"
    using fl_of_int [of 1]
    by (simp add: transformCoord_def fl_numeral cround_def to_int16_def)
  then have p3: "transformPoint
         \<lparr>pt_x = Finite (2 powi (- 14) + 2 powi (- 66)), pt_y = Finite (1 / 2), pt_z = Finite 1\<rparr>
         4096 2 1 0
       = Inr \<lparr>tp_x = - 4096, tp_y = 4096\<rparr>"
    by (simp only: transformPoint_def ProjectedPoint.simps transformCoord_rounds(1) sum.case)
  from inst [of 0 1 "\<lparr>pt_x = Finite (1 / 2), pt_y = Finite (1 / 2), pt_z = Finite 1\<rparr>" 4096 0 0
               "\<lparr>tp_x = 2048, tp_y = 2048\<rparr>" "plainTile [pointF] 1 0 0" "Finite 1"]
  have t: "transformTile (plainTile [pointF] 1 0 0) 4096 =
        Inr ((plainTile [pointF] 1 0 0)
               \<lparr>features := [pointF\<lparr>tileGeometry := [GTilePoint \<lparr>tp_x = 2048, tp_y = 2048\<rparr>]\<rparr>],
                transformed := True\<rparr>)"
    by (simp add: pointF_def corner_def)
  from s0 s1 c0 c1 c2 c3 h p0 p1 p2 p3 t show ?thesis by blast
qed

subsection \<open>C7: a tile is transformed once\<close>

text \<open>
  C7: a call of \<^verbatim>\<open>transformTile\<close> that returns leaves the tile transformed, and a
  later call returns that tile unchanged. The first call on a tile that is not yet
  transformed changes its features and its flag only: every feature keeps its geometry
  and its kind, and gets one element of tile geometry for each element of its geometry,
  appended to what it had.
\<close>

theorem transformTile_at_most_once:
  assumes "transformTile tile e = Inr tile'"
  shows "transformed tile' \<and> transformTile tile' e = Inr tile'
         \<and> (if transformed tile then tile' = tile
            else tile' = tile\<lparr>features := features tile', transformed := True\<rparr>
                 \<and> list_all2 (\<lambda>f f'. geometry f' = geometry f \<and> ftype f' = ftype f
                        \<and> (\<exists>new. tileGeometry f' = tileGeometry f @ new
                                  \<and> length new = length (geometry f)))
                     (features tile) (features tile'))"
proof (cases "transformed tile")
  case True
  with assms show ?thesis by (simp add: transformTile_def)
next
  case False
  with assms obtain fs where
    fs: "mapE (transformFeature e (z2 tile) (tx tile) (ty tile)) (features tile) = Inr fs"
    and t': "tile' = tile\<lparr>features := fs, transformed := True\<rparr>"
    by (auto simp: transformTile_def split: sum.splits)
  from fs have "list_all2 (\<lambda>f f'. transformFeature e (z2 tile) (tx tile) (ty tile) f = Inr f')
                  (features tile) fs"
    by (simp add: mapE_Inr_iff)
  then have "list_all2 (\<lambda>f f'. geometry f' = geometry f \<and> ftype f' = ftype f
                        \<and> (\<exists>new. tileGeometry f' = tileGeometry f @ new
                                  \<and> length new = length (geometry f)))
                     (features tile) fs"
    by (rule list_all2_mono) (rule transformFeature_appends)
  with False t' show ?thesis by (simp add: transformTile_def)
qed

theorem transformTile_at_most_once_witness:
  "transformTile (plainTile [pointF] 1 0 0) extent =
        Inr ((plainTile [pointF] 1 0 0)
               \<lparr>features := [pointF\<lparr>tileGeometry := [GTilePoint \<lparr>tp_x = 2048, tp_y = 2048\<rparr>]\<rparr>],
                transformed := True\<rparr>)
   \<and> transformTile ((plainTile [pointF] 1 0 0)
               \<lparr>features := [pointF\<lparr>tileGeometry := [GTilePoint \<lparr>tp_x = 2048, tp_y = 2048\<rparr>]\<rparr>],
                transformed := True\<rparr>) extent =
        Inr ((plainTile [pointF] 1 0 0)
               \<lparr>features := [pointF\<lparr>tileGeometry := [GTilePoint \<lparr>tp_x = 2048, tp_y = 2048\<rparr>]\<rparr>],
                transformed := True\<rparr>)"
proof -
  have first: "transformTile (plainTile [pointF] 1 0 0) extent =
        Inr ((plainTile [pointF] 1 0 0)
               \<lparr>features := [pointF\<lparr>tileGeometry := [GTilePoint \<lparr>tp_x = 2048, tp_y = 2048\<rparr>]\<rparr>],
                transformed := True\<rparr>)"
    by (simp add: transformTile_def transformFeature_def transformGeomPoint_def
        transformPoint_def transformCoord_def fl_half fl_numeral cround_def to_int16_def
        pointF_def corner_def extent_def)
  from transformTile_at_most_once [OF first] first show ?thesis by simp
qed

subsection \<open>C8: the source of a tile\<close>

text \<open>
  C8: an iteration of \<^verbatim>\<open>splitTile\<close> sets the source of its tile to the features it was
  handed, and clears it when, and only when, it goes on to clip and push the children
  (\<open>source_follows_last_visit\<close>). But the tile belongs to a key, and from zoom 14 on two
  cells can have one key, so that the source of a stored tile can be not empty although
  the builder recursed through the cell of that tile. With \<^verbatim>\<open>maxZoom\<close> 15, the pyramid of
  the two points is the root, not split, and \<^verbatim>\<open>getTile(15, 2, 5460)\<close> drills down from it.
  The drill-down comes to the cell \<open>(14, 0, 2730)\<close>, which is in the row of the target:
  it creates the tile of that cell, clears its source and pushes its child
  \<open>(15, 0, 5460)\<close>, whose tile it stores later. Then it comes to the cell \<open>(14, 0, 10922)\<close>, which has the same key:
  it sets the source of that same tile to the features of this cell and stops there, at
  the ancestor test. When \<^verbatim>\<open>splitTile\<close> returns, the tile of the cell \<open>(14, 0, 2730)\<close>
  holds the features of the other cell as its source.
\<close>

theorem source_survives_a_split:
  "construct sieve [pointA, pointB] 15 0 100 (Finite 3) False = Inr twoPoints
   \<and> toID 14 0 2730 = Inr 1431306254 \<and> toID 14 0 10922 = Inr 1431306254
   \<and> (\<exists>after vs tile t.
         getTile sieve twoPoints 15 2 5460
           = Inr (tile, after\<lparr>tiles := (tiles after)(1430257743 \<mapsto> tile)\<rparr>)
         \<and> splitLoop sieve 15 2 5460 twoPoints [([pointA, pointB], 0, 0, 0)] [] = Inr (after, vs)
         \<and> \<lparr>v_z = 14, v_x = 0, v_y = 2730, v_features = [pointA], v_decision = Split\<rparr> \<in> set vs
         \<and> \<lparr>v_z = 15, v_x = 0, v_y = 5460, v_features = [pointA], v_decision = DrillDownStop\<rparr>
             \<in> set vs
         \<and> \<lparr>v_z = 14, v_x = 0, v_y = 10922, v_features = [pointB], v_decision = NotAncestor\<rparr>
             \<in> set vs
         \<and> toID 15 0 5460 = Inr 1430257679 \<and> tiles after 1430257679 \<noteq> None
         \<and> tiles after 1431306254 = Some t \<and> z2 t = 16384 \<and> tx t = 0 \<and> ty t = 2730
         \<and> features t = [pointA] \<and> source t = [pointB])"
proof -
  from drill obtain after vs t where
    loop: "splitLoop sieve 15 2 5460 twoPoints [([pointA, pointB], 0, 0, 0)] [] = Inr (after, vs)"
    and a: "\<lparr>v_z = 14, v_x = 0, v_y = 2730, v_features = [pointA], v_decision = Split\<rparr> \<in> set vs"
    and c: "\<lparr>v_z = 15, v_x = 0, v_y = 5460, v_features = [pointA], v_decision = DrillDownStop\<rparr>
             \<in> set vs"
    and b: "\<lparr>v_z = 14, v_x = 0, v_y = 10922, v_features = [pointB], v_decision = NotAncestor\<rparr>
             \<in> set vs"
    and child: "tiles after 1430257679 \<noteq> None"
    and t: "tiles after 1431306254 = Some t" "z2 t = 16384" "tx t = 0" "ty t = 2730"
      "features t = [pointA]" "source t = [pointB]"
    and absent: "tiles after 1430257743 = None"
    by blast
  from loop have split: "splitTile sieve twoPoints [pointA, pointB] 0 0 0 15 2 5460 = Inr after"
    by (simp add: splitTile_def)
  have none: "tiles twoPoints 1430257743 = None" by (simp add: twoPoints_fields)
  have "getTile sieve twoPoints 15 2 5460
          = Inr ((plainTile [] 0 0 0)\<lparr>features := [], transformed := True\<rparr>,
                 after\<lparr>tiles := (tiles after)
                          (1430257743 \<mapsto> (plainTile [] 0 0 0)\<lparr>features := [], transformed := True\<rparr>)\<rparr>)"
    by (simp add: getTile_def collide none walk_15_2_5460 points_not_clipped split
        returnTile_def indexOrDefault_def absent sieve_simps transformTile_def)
  with loop a b c child t collide construct_twoPoints show ?thesis by blast
qed

subsection \<open>C9: the stopping rule of the first pass\<close>

text \<open>
  C9: with no target (\<open>cz = 0\<close>) an iteration stops exactly when the zoom is
  \<^verbatim>\<open>indexMaxZoom\<close>, or the tile has at most \<^verbatim>\<open>indexMaxPoints\<close> points, or the tile is a
  clipped square; hence every cell the construction went on to split has a zoom
  below \<^verbatim>\<open>indexMaxZoom\<close>, and its stored tile has more than \<^verbatim>\<open>indexMaxPoints\<close> points.
\<close>

theorem first_pass_stopping_rule:
  "(splitStep env 0 cx cy this (fs, z, x, y) = Inr (this', pushed, d)
      \<and> toID z x y = Inr tid \<and> tiles this' tid = Some tile
    \<longrightarrow> (d \<noteq> Split \<longleftrightarrow>
             z = indexMaxZoom this \<or> numPoints tile \<le> indexMaxPoints this
             \<or> isClippedSquare (features tile) extent buffer = Inr True)
        \<and> pushed = (if d = Split then splitChildren env fs tile z x y (2 ^ unat z) else []))
   \<and> (construct env fs0 mz imz imp tol dbg = Inr pyramid
      \<and> splitLoop env 0 0 0 (newGeoJSONVT mz imz imp tol dbg) [(fs0, 0, 0, 0)] [] = Inr (built, vs)
    \<longrightarrow> tiles pyramid = tiles built
        \<and> (\<forall>v \<in> set vs. v_decision v = Split \<longrightarrow>
              v_z v < imz
              \<and> (\<exists>tid t. toID (v_z v) (v_x v) (v_y v) = Inr tid \<and> tiles pyramid tid = Some t
                     \<and> imp < numPoints t)))"
proof (intro conjI impI)
  assume a: "splitStep env 0 cx cy this (fs, z, x, y) = Inr (this', pushed, d)
      \<and> toID z x y = Inr tid \<and> tiles this' tid = Some tile"
  then have step: "splitStep env 0 cx cy this (fs, z, x, y) = Inr (this', pushed, d)"
    and key: "toID z x y = Inr tid" and stored: "tiles this' tid = Some tile"
    by simp_all
  note out = splitStep_outcome [OF step key stored]
  from out(1) show "d \<noteq> Split \<longleftrightarrow>
             z = indexMaxZoom this \<or> numPoints tile \<le> indexMaxPoints this
             \<or> isClippedSquare (features tile) extent buffer = Inr True"
    by (auto simp: decide_def split: sum.splits bool.splits if_splits)
  from out(3) show "pushed = (if d = Split then splitChildren env fs tile z x y (2 ^ unat z) else [])" .
next
  assume a: "construct env fs0 mz imz imp tol dbg = Inr pyramid
      \<and> splitLoop env 0 0 0 (newGeoJSONVT mz imz imp tol dbg) [(fs0, 0, 0, 0)] [] = Inr (built, vs)"
  then have c: "construct env fs0 mz imz imp tol dbg = Inr pyramid"
    and loop: "splitLoop env 0 0 0 (newGeoJSONVT mz imz imp tol dbg) [(fs0, 0, 0, 0)] [] = Inr (built, vs)"
    by simp_all
  from c obtain built' vs' where
    "splitLoop env 0 0 0 (newGeoJSONVT mz imz imp tol dbg) [(fs0, 0, 0, 0)] [] = Inr (built', vs')"
    and "tiles pyramid = tiles built'"
    by (rule construct_Inr)
  with loop show tiles: "tiles pyramid = tiles built" by simp
  have "(0 :: 8 word) \<le> indexMaxZoom (newGeoJSONVT mz imz imp tol dbg :: 'a GeoJSONVT)" by simp
  from first_pass_history [OF loop this]
  show "\<forall>v \<in> set vs. v_decision v = Split \<longrightarrow>
              v_z v < imz
              \<and> (\<exists>tid t. toID (v_z v) (v_x v) (v_y v) = Inr tid \<and> tiles pyramid tid = Some t
                     \<and> imp < numPoints t)"
    by (simp add: newGeoJSONVT_def tiles)
qed

theorem first_pass_stopping_rule_witness:
  "splitStep plain 0 0 0 demo ([pointF], 0, 0, 0)
     = Inr (demo\<lparr>tiles := [0 \<mapsto> plainTile [pointF] 1 0 0]\<rparr>,
            [([pointF], 1, 0, 0), ([pointF], 1, 0, 1), ([pointF], 1, 1, 0), ([pointF], 1, 1, 1)],
            Split)
   \<and> [([pointF], 1, 0, 0), ([pointF], 1, 0, 1), ([pointF], 1, 1, 0), ([pointF], 1, 1, 1)]
       = splitChildren plain [pointF] (plainTile [pointF] 1 0 0) 0 0 0 (2 ^ unat (0 :: 8 word))
   \<and> construct plain [pointF] 14 1 0 (Finite 3) False
       = Inr (demo\<lparr>tiles := [0 \<mapsto> plainTile [pointF] 1 0 0,
                          1 \<mapsto> (plainTile [pointF] 2 0 0)\<lparr>source := [pointF]\<rparr>,
                          65 \<mapsto> (plainTile [pointF] 2 0 1)\<lparr>source := [pointF]\<rparr>,
                          33 \<mapsto> (plainTile [pointF] 2 1 0)\<lparr>source := [pointF]\<rparr>,
                          97 \<mapsto> (plainTile [pointF] 2 1 1)\<lparr>source := [pointF]\<rparr>]\<rparr>)
   \<and> (0 :: 8 word) < 1
   \<and> (\<exists>tid t. toID 0 0 0 = Inr tid
         \<and> tiles (demo\<lparr>tiles := [0 \<mapsto> plainTile [pointF] 1 0 0,
                          1 \<mapsto> (plainTile [pointF] 2 0 0)\<lparr>source := [pointF]\<rparr>,
                          65 \<mapsto> (plainTile [pointF] 2 0 1)\<lparr>source := [pointF]\<rparr>,
                          33 \<mapsto> (plainTile [pointF] 2 1 0)\<lparr>source := [pointF]\<rparr>,
                          97 \<mapsto> (plainTile [pointF] 2 1 1)\<lparr>source := [pointF]\<rparr>]\<rparr>) tid = Some t
         \<and> (0 :: 32 word) < numPoints t)"
proof -
  have step: "splitStep plain 0 0 0 demo ([pointF], 0, 0, 0)
     = Inr (demo\<lparr>tiles := [0 \<mapsto> plainTile [pointF] 1 0 0]\<rparr>,
            [([pointF], 1, 0, 0), ([pointF], 1, 0, 1), ([pointF], 1, 1, 0), ([pointF], 1, 1, 1)],
            Split)"
    by (simp add: splitStep_def keys shl1_def findOrCreate_def decide_def pointF_not_clipped
        splitChildren_plain plainTile_def)
  note inst = first_pass_stopping_rule
    [of plain 0 0 demo "[pointF]" 0 0 0 "demo\<lparr>tiles := [0 \<mapsto> plainTile [pointF] 1 0 0]\<rparr>"
        "[([pointF], 1, 0, 0), ([pointF], 1, 0, 1), ([pointF], 1, 1, 0), ([pointF], 1, 1, 1)]"
        Split 0 "plainTile [pointF] 1 0 0" "[pointF]" 14 1 0 "Finite 3" False,
     unfolded demo_def [symmetric]]
  from inst step have kids:
    "[([pointF], 1, 0, 0), ([pointF], 1, 0, 1), ([pointF], 1, 1, 0), ([pointF], 1, 1, 1)]
       = splitChildren plain [pointF] (plainTile [pointF] 1 0 0) 0 0 0 (2 ^ unat (0 :: 8 word))"
    by (simp add: keys)
  from inst construct_demo run
  have "\<forall>v \<in> set [\<lparr>v_z = 1, v_x = 1, v_y = 1, v_features = [pointF], v_decision = FirstPassStop\<rparr>,
           \<lparr>v_z = 1, v_x = 1, v_y = 0, v_features = [pointF], v_decision = FirstPassStop\<rparr>,
           \<lparr>v_z = 1, v_x = 0, v_y = 1, v_features = [pointF], v_decision = FirstPassStop\<rparr>,
           \<lparr>v_z = 1, v_x = 0, v_y = 0, v_features = [pointF], v_decision = FirstPassStop\<rparr>,
           \<lparr>v_z = 0, v_x = 0, v_y = 0, v_features = [pointF], v_decision = Split\<rparr>].
          v_decision v = Split \<longrightarrow>
              v_z v < 1
              \<and> (\<exists>tid t. toID (v_z v) (v_x v) (v_y v) = Inr tid
                     \<and> tiles (demo\<lparr>tiles := [0 \<mapsto> plainTile [pointF] 1 0 0,
                          1 \<mapsto> (plainTile [pointF] 2 0 0)\<lparr>source := [pointF]\<rparr>,
                          65 \<mapsto> (plainTile [pointF] 2 0 1)\<lparr>source := [pointF]\<rparr>,
                          33 \<mapsto> (plainTile [pointF] 2 1 0)\<lparr>source := [pointF]\<rparr>,
                          97 \<mapsto> (plainTile [pointF] 2 1 1)\<lparr>source := [pointF]\<rparr>]\<rparr>) tid = Some t
                     \<and> 0 < numPoints t)"
    by blast
  then have root: "(0 :: 8 word) < 1
   \<and> (\<exists>tid t. toID 0 0 0 = Inr tid
         \<and> tiles (demo\<lparr>tiles := [0 \<mapsto> plainTile [pointF] 1 0 0,
                          1 \<mapsto> (plainTile [pointF] 2 0 0)\<lparr>source := [pointF]\<rparr>,
                          65 \<mapsto> (plainTile [pointF] 2 0 1)\<lparr>source := [pointF]\<rparr>,
                          33 \<mapsto> (plainTile [pointF] 2 1 0)\<lparr>source := [pointF]\<rparr>,
                          97 \<mapsto> (plainTile [pointF] 2 1 1)\<lparr>source := [pointF]\<rparr>]\<rparr>) tid = Some t
         \<and> (0 :: 32 word) < numPoints t)"
    by simp
  from step kids construct_demo root show ?thesis by blast
qed

subsection \<open>C10: the debug flag\<close>

text \<open>
  C10: two sessions that differ in the debug flag alone give the client the same: the
  same tiles in answer to the same calls of \<^verbatim>\<open>getTile\<close>, field by field, the same index,
  and the same failure where one fails. The pyramid built with the flag on is the one
  built with it off, up to the flag and the two counters.
\<close>

theorem debug_keeps_the_tiles:
  "session env fs mz imz imp tol True qs = session env fs mz imz imp tol False qs
   \<and> map_sum id quiet (construct env fs mz imz imp tol True) = construct env fs mz imz imp tol False"
  by (simp add: session_quiet [of env fs mz imz imp tol True] construct_quiet)

end
